theory Spec2Isabelle
  imports Complex_Main "HOL-Library.Char_ord" "HOL-Library.List_Lexorder" "HOL-Library.Multiset"
begin

section \<open>The TFSA penalty calculator (script.js)\<close>

text \<open>
  A shallow embedding of the engine of \<^verbatim>\<open>script.js\<close>: \<^verbatim>\<open>calculatePenalty\<close>
  (the day-by-day simulation, the monthly aggregation and the projection of next year's
  room) and \<^verbatim>\<open>processCsvData\<close> (the CSV import).

  Conventions of the model.
  \<^item> A JavaScript string is a \<open>string\<close> (a list of 8-bit characters), read as a string of
    code units below 256. \<open>HOL-Library.Char_ord\<close> orders characters by their code and
    \<open>HOL-Library.List_Lexorder\<close> orders strings lexicographically, a proper prefix first:
    this is the order of JavaScript's \<^verbatim>\<open><\<close> on strings.
  \<^item> The numbers the simulation computes with (amounts, room, excess, penalties) are
    \<open>real\<close>: the arithmetic is exact; the rounding of binary64 and the special values
    NaN and Infinity are not part of the simulation model. The number that
    \<^verbatim>\<open>parseFloat\<close> returns in the CSV import is a \<open>jsnum\<close>, which keeps NaN and the
    infinities apart from the finite values.
  \<^item> The argument \<^verbatim>\<open>year\<close> is the integer that the text of the year selector denotes.
  \<^item> \<^verbatim>\<open>calculatePenalty\<close> is modelled twice: as a function of the contents of the ledger
    (\<open>calculatePenalty\<close>), and on a store that holds the ledger as a shared array
    (\<open>calculatePenalty_on\<close>), where what a call writes can be stated. The two agree
    (\<open>calculatePenalty_on_result\<close>).
  \<^item> What the page shows (tables, chart, messages of the form) is left out.
\<close>

subsection \<open>Transactions and the simulation state\<close>

text \<open>
  A ledger entry as \<^verbatim>\<open>addTransaction\<close> and \<^verbatim>\<open>processCsvData\<close> build it. The field
  \<^verbatim>\<open>id\<close> is named \<open>tx_id\<close> and \<^verbatim>\<open>type\<close> is named \<open>tx_type\<close>; the type parameter is
  the type of the amount.
\<close>

record 'n transaction =
  tx_id :: real
  date :: string
  tx_type :: string
  amount :: 'n
  institution :: string

text \<open>
  The local variables of \<^verbatim>\<open>calculatePenalty\<close> that the daily loop updates
  (lines 275-294).
\<close>

record sim_state =
  txIndex :: nat
  excess :: real
  unusedRoom :: real
  totalWithdrawals :: real
  totalContributions :: real
  monthlyMaxExcess :: "real list"
  vizDataDates :: "string list"
  vizDataExcess :: "real list"

subsection \<open>Sorting the ledger (lines 268-274)\<close>

text \<open>The comparator handed to \<^verbatim>\<open>sort\<close>.\<close>

definition date_cmp :: "'n transaction \<Rightarrow> 'n transaction \<Rightarrow> int" where
  "date_cmp a b = (if date a < date b then -1 else if date a > date b then 1 else 0)"

text \<open>
  \<^verbatim>\<open>[...txs].sort(cmp)\<close>: \<^verbatim>\<open>Array.prototype.sort\<close> is stable (ECMAScript 2019) and, for a
  consistent comparator, returns the elements in ascending order of the comparator. The
  result is determined by these two properties, whatever algorithm the engine runs; the
  model is the stable insertion sort driven by the comparator.
\<close>

fun insert_by :: "('a \<Rightarrow> 'a \<Rightarrow> int) \<Rightarrow> 'a \<Rightarrow> 'a list \<Rightarrow> 'a list" where
  "insert_by cmp x [] = [x]"
| "insert_by cmp x (y # ys) = (if cmp x y \<le> 0 then x # y # ys else y # insert_by cmp x ys)"

definition js_sort :: "('a \<Rightarrow> 'a \<Rightarrow> int) \<Rightarrow> 'a list \<Rightarrow> 'a list" where
  "js_sort cmp xs = foldr (insert_by cmp) xs []"

subsection \<open>Applying one transaction (lines 312-341)\<close>

definition apply_tx :: "real transaction \<Rightarrow> sim_state \<Rightarrow> sim_state" where
  "apply_tx tx s =
     (if tx_type tx = ''CONTRIBUTION'' then
        (let s1 = s\<lparr>totalContributions := totalContributions s + amount tx\<rparr>
         in if unusedRoom s1 \<ge> amount tx
            then s1\<lparr>unusedRoom := unusedRoom s1 - amount tx\<rparr>
            else (let spill = amount tx - unusedRoom s1
                  in s1\<lparr>unusedRoom := 0, excess := excess s1 + spill\<rparr>))
      else if tx_type tx = ''WITHDRAWAL'' then
        (let s1 = s\<lparr>totalWithdrawals := totalWithdrawals s + amount tx\<rparr>
         in if excess s1 > 0
            then (if excess s1 \<ge> amount tx
                  then s1\<lparr>excess := excess s1 - amount tx\<rparr>
                  else s1\<lparr>excess := 0\<rparr>)
            else s1)
      else s)"

subsection \<open>The inner loop: the transactions of one day (lines 309-346)\<close>

function apply_day_txs :: "string \<Rightarrow> real transaction list \<Rightarrow> sim_state \<Rightarrow> sim_state" where
  "apply_day_txs dateStr sortedTxs s =
     (if txIndex s < length sortedTxs then
        (if date (sortedTxs ! txIndex s) = dateStr
         then apply_day_txs dateStr sortedTxs
                ((apply_tx (sortedTxs ! txIndex s) s)\<lparr>txIndex := txIndex s + 1\<rparr>)
         else s)
      else s)"
  by pat_completeness auto
termination
  by (relation "measure (\<lambda>(dateStr, sortedTxs, s). length sortedTxs - txIndex s)") auto

declare apply_day_txs.simps [simp del]

subsection \<open>The calendar: JavaScript's Date in UTC\<close>

text \<open>
  A valid \<^verbatim>\<open>Date\<close> is modelled by the civil date it denotes in UTC: the values of
  \<^verbatim>\<open>getUTCFullYear()\<close>, \<^verbatim>\<open>getUTCMonth()\<close> (0 to 11) and \<^verbatim>\<open>getUTCDate()\<close>. All the dates
  of the program are at midnight UTC, so the order of the time values is the lexicographic
  order of the three fields. An invalid Date (time value NaN) is \<open>None\<close>.
\<close>

record utc_date =
  utcFullYear :: int
  utcMonth :: nat
  utcDate :: nat

definition leap_year :: "int \<Rightarrow> bool" where
  "leap_year y = (y mod 4 = 0 \<and> (y mod 100 \<noteq> 0 \<or> y mod 400 = 0))"

text \<open>The months are 0 to 11; the last equation is not reached.\<close>

definition days_in_month :: "int \<Rightarrow> nat \<Rightarrow> nat" where
  "days_in_month y m =
     (if m = 1 then (if leap_year y then 29 else 28)
      else if m = 3 \<or> m = 5 \<or> m = 8 \<or> m = 10 then 30
      else 31)"

text \<open>\<^verbatim>\<open>a <= b\<close> on two valid dates.\<close>

definition date_le :: "utc_date \<Rightarrow> utc_date \<Rightarrow> bool" where
  "date_le a b =
     (utcFullYear a < utcFullYear b \<or>
      (utcFullYear a = utcFullYear b \<and>
       (utcMonth a < utcMonth b \<or> (utcMonth a = utcMonth b \<and> utcDate a \<le> utcDate b))))"

text \<open>
  \<^verbatim>\<open>Date.UTC(year, month, day)\<close> for a month in 0 to 11 and a day of that month. A year from
  0 to 99 stands for 1900 + year (MakeFullYear), and a time value beyond 100,000,000 days
  from the epoch (before April 20 of -271821, after September 13 of 275760) is NaN
  (TimeClip).
\<close>

definition MakeFullYear :: "int \<Rightarrow> int" where
  "MakeFullYear year = (if 0 \<le> year \<and> year \<le> 99 then 1900 + year else year)"

definition Date_UTC :: "int \<Rightarrow> nat \<Rightarrow> nat \<Rightarrow> utc_date option" where
  "Date_UTC year m d =
     (let dt = \<lparr>utcFullYear = MakeFullYear year, utcMonth = m, utcDate = d\<rparr>
      in if date_le \<lparr>utcFullYear = - 271821, utcMonth = 3, utcDate = 20\<rparr> dt \<and>
            date_le dt \<lparr>utcFullYear = 275760, utcMonth = 8, utcDate = 13\<rparr>
         then Some dt else None)"

text \<open>\<^verbatim>\<open>iterDate.setUTCDate(iterDate.getUTCDate() + 1)\<close>: the next day (line 358).\<close>

definition next_day :: "utc_date \<Rightarrow> utc_date" where
  "next_day dt =
     (if utcDate dt < days_in_month (utcFullYear dt) (utcMonth dt)
      then dt\<lparr>utcDate := utcDate dt + 1\<rparr>
      else if utcMonth dt < 11
      then dt\<lparr>utcMonth := utcMonth dt + 1, utcDate := 1\<rparr>
      else \<lparr>utcFullYear = utcFullYear dt + 1, utcMonth = 0, utcDate = 1\<rparr>)"

subsection \<open>Formatting the day (lines 302-305)\<close>

definition digit_char :: "nat \<Rightarrow> char" where
  "digit_char n = ''0123456789'' ! n"

text \<open>\<^verbatim>\<open>String(n)\<close> for a natural number, and for an integer.\<close>

fun show_nat :: "nat \<Rightarrow> string" where
  "show_nat n = (if n < 10 then [digit_char n] else show_nat (n div 10) @ [digit_char (n mod 10)])"

declare show_nat.simps [simp del]

definition show_int :: "int \<Rightarrow> string" where
  "show_int i = (if i < 0 then CHR ''-'' # show_nat (nat (- i)) else show_nat (nat i))"

text \<open>\<^verbatim>\<open>s.padStart(2, '0')\<close>.\<close>

definition padStart2 :: "string \<Rightarrow> string" where
  "padStart2 s = (if length s < 2 then replicate (2 - length s) CHR ''0'' @ s else s)"

definition format_date :: "utc_date \<Rightarrow> string" where
  "format_date dt =
     (let y = show_int (utcFullYear dt);
          m = padStart2 (show_nat (utcMonth dt + 1));
          d = padStart2 (show_nat (utcDate dt))
      in y @ ''-'' @ m @ ''-'' @ d)"

subsection \<open>The daily loop (lines 298-359)\<close>

text \<open>
  One pass of the body of the outer loop for the day \<open>iterDate\<close>: the day's transactions,
  the high-water mark of the month, the chart data. The index \<open>utcMonth iterDate\<close> is
  below 12 and the array has 12 entries.
\<close>

definition day_body :: "real transaction list \<Rightarrow> utc_date \<Rightarrow> sim_state \<Rightarrow> sim_state" where
  "day_body sortedTxs iterDate s =
     (let dateStr = format_date iterDate;
          monthIndex = utcMonth iterDate;
          s1 = apply_day_txs dateStr sortedTxs s;
          s2 = (if excess s1 > monthlyMaxExcess s1 ! monthIndex
                then s1\<lparr>monthlyMaxExcess := (monthlyMaxExcess s1)[monthIndex := excess s1]\<rparr>
                else s1)
      in s2\<lparr>vizDataDates := vizDataDates s2 @ [dateStr],
             vizDataExcess := vizDataExcess s2 @ [excess s2]\<rparr>)"

function daily_loop ::
  "utc_date \<Rightarrow> real transaction list \<Rightarrow> utc_date \<Rightarrow> sim_state \<Rightarrow> sim_state" where
  "daily_loop endDate sortedTxs iterDate s =
     (if date_le iterDate endDate
      then daily_loop endDate sortedTxs (next_day iterDate) (day_body sortedTxs iterDate s)
      else s)"
  by pat_completeness auto
termination
  by (relation "measures
        [\<lambda>(endDate, sortedTxs, iterDate, s). nat (utcFullYear endDate + 1 - utcFullYear iterDate),
         \<lambda>(endDate, sortedTxs, iterDate, s). 12 - utcMonth iterDate,
         \<lambda>(endDate, sortedTxs, iterDate, s). 32 - utcDate iterDate]")
     (auto simp: date_le_def next_day_def days_in_month_def split: if_splits)

declare daily_loop.simps [simp del]

text \<open>
  The days the loop visits, in order: the same recursion, keeping only the cursor.
\<close>

function days_from :: "utc_date \<Rightarrow> utc_date \<Rightarrow> utc_date list" where
  "days_from endDate iterDate =
     (if date_le iterDate endDate
      then iterDate # days_from endDate (next_day iterDate)
      else [])"
  by pat_completeness auto
termination
  by (relation "measures
        [\<lambda>(endDate, iterDate). nat (utcFullYear endDate + 1 - utcFullYear iterDate),
         \<lambda>(endDate, iterDate). 12 - utcMonth iterDate,
         \<lambda>(endDate, iterDate). 32 - utcDate iterDate]")
     (auto simp: date_le_def next_day_def days_in_month_def split: if_splits)

declare days_from.simps [simp del]

text \<open>
  The trace of the simulation over a list of days: each day with the state after its
  pass. The program keeps the trace only in part (the chart data).
\<close>

primrec day_states ::
  "real transaction list \<Rightarrow> utc_date list \<Rightarrow> sim_state \<Rightarrow> (utc_date \<times> sim_state) list" where
  "day_states sortedTxs [] s = []"
| "day_states sortedTxs (d # ds) s =
     (d, day_body sortedTxs d s) # day_states sortedTxs ds (day_body sortedTxs d s)"

subsection \<open>The start of the simulation (lines 277-294)\<close>

definition init_state :: "real \<Rightarrow> sim_state" where
  "init_state startRoom =
     (let s = \<lparr>txIndex = 0, excess = 0, unusedRoom = 0, totalWithdrawals = 0,
                totalContributions = 0, monthlyMaxExcess = replicate 12 0,
                vizDataDates = [], vizDataExcess = []\<rparr>
      in if startRoom < 0
         then s\<lparr>excess := \<bar>startRoom\<bar>, unusedRoom := 0\<rparr>
         else s\<lparr>excess := 0, unusedRoom := startRoom\<rparr>)"

text \<open>
  Steps 3 and 4 of \<^verbatim>\<open>calculatePenalty\<close>, on the sorted ledger: the state when the
  daily loop ends. When \<^verbatim>\<open>startDate\<close> or \<^verbatim>\<open>endDate\<close> is an invalid Date,
  \<^verbatim>\<open>iterDate <= endDate\<close> is false and the loop body never runs.
\<close>

definition simulate_sorted :: "int \<Rightarrow> real \<Rightarrow> real transaction list \<Rightarrow> sim_state" where
  "simulate_sorted year startRoom sortedTxs =
     (let s0 = init_state startRoom
      in case Date_UTC year 0 1 of
           None \<Rightarrow> s0
         | Some startDate \<Rightarrow>
             (case Date_UTC year 11 31 of
                None \<Rightarrow> s0
              | Some endDate \<Rightarrow> daily_loop endDate sortedTxs startDate s0))"

text \<open>Steps 1 to 4: the ledger is sorted (a copy of it), then simulated.\<close>

definition simulate :: "int \<Rightarrow> real \<Rightarrow> real transaction list \<Rightarrow> sim_state" where
  "simulate year startRoom txs = simulate_sorted year startRoom (js_sort date_cmp txs)"

text \<open>The days of the simulated year: those the daily loop of \<open>simulate\<close> visits.\<close>

definition year_days :: "int \<Rightarrow> utc_date list" where
  "year_days year =
     (case Date_UTC year 0 1 of
        None \<Rightarrow> []
      | Some startDate \<Rightarrow>
          (case Date_UTC year 11 31 of
             None \<Rightarrow> []
           | Some endDate \<Rightarrow> days_from endDate startDate))"

text \<open>The trace of the run: the days of the year, each with the state after its pass.\<close>

definition simulate_days :: "int \<Rightarrow> real \<Rightarrow> real transaction list \<Rightarrow> (utc_date \<times> sim_state) list" where
  "simulate_days year startRoom txs =
     day_states (js_sort date_cmp txs) (year_days year) (init_state startRoom)"

subsection \<open>Monthly penalties and the projection (lines 361-414)\<close>

definition MONTHS :: "string list" where
  "MONTHS = [''Jan'', ''Feb'', ''Mar'', ''Apr'', ''May'', ''Jun'',
             ''Jul'', ''Aug'', ''Sep'', ''Oct'', ''Nov'', ''Dec'']"

record monthly_record =
  month :: string
  maxExcess :: real
  penalty :: real
  isAffected :: bool

text \<open>
  \<^verbatim>\<open>monthlyMaxExcess.map((max, idx) => ...)\<close> with the two counters its callback updates:
  the records, then \<^verbatim>\<open>totalPenalty\<close> and \<^verbatim>\<open>affectedMonths\<close>.
\<close>

fun finalize_months :: "real list \<Rightarrow> nat \<Rightarrow> real \<Rightarrow> nat \<Rightarrow> monthly_record list \<times> real \<times> nat" where
  "finalize_months [] idx totalPenalty affectedMonths = ([], totalPenalty, affectedMonths)"
| "finalize_months (mx # rest) idx totalPenalty affectedMonths =
     (let penalty = mx * 0.01;
          totalPenalty' = totalPenalty + penalty;
          affectedMonths' = (if mx > 0 then affectedMonths + 1 else affectedMonths);
          r = \<lparr>month = MONTHS ! idx, maxExcess = mx, penalty = penalty, isAffected = (mx > 0)\<rparr>;
          (details, tp, am) = finalize_months rest (idx + 1) totalPenalty' affectedMonths'
      in (r # details, tp, am))"

text \<open>
  \<^verbatim>\<open>Math.max(...xs)\<close>. The program calls it on the 12 monthly values; on no argument
  JavaScript returns -Infinity, which the model does not have.
\<close>

fun Math_max :: "real list \<Rightarrow> real" where
  "Math_max [] = 0"
| "Math_max (x # xs) = fold max xs x"

text \<open>The table of annual limits, and \<^verbatim>\<open>ANNUAL_LIMITS[parseInt(year) + 1] || 7000\<close>.\<close>

definition ANNUAL_LIMITS :: "int \<Rightarrow> real option" where
  "ANNUAL_LIMITS = [2023 \<mapsto> 6500, 2024 \<mapsto> 7000, 2025 \<mapsto> 7000, 2026 \<mapsto> 7000]"

definition nextLimit_of :: "int \<Rightarrow> real" where
  "nextLimit_of year =
     (case ANNUAL_LIMITS (year + 1) of
        None \<Rightarrow> 7000
      | Some v \<Rightarrow> (if v = 0 then 7000 else v))"

record viz_data =
  labels :: "string list"
  data :: "real list"

text \<open>
  The record \<^verbatim>\<open>calculatePenalty\<close> returns. Its fields \<^verbatim>\<open>totalContributions\<close> and
  \<^verbatim>\<open>totalWithdrawals\<close> are named \<open>res_totalContributions\<close> and \<open>res_totalWithdrawals\<close>,
  apart from the local variables of the same names.
\<close>

record result =
  totalPenalty :: real
  peakExcess :: real
  currentExcess :: real
  remainingRoom :: real
  nextYearLimit :: real
  res_totalContributions :: real
  res_totalWithdrawals :: real
  unusedRoomEndOfYear :: real
  nextAnnualLimit :: real
  affectedMonths :: nat
  monthlyDetails :: "monthly_record list"
  vizData :: viz_data

text \<open>Steps 5 and 6 and the returned record, from the state \<open>s\<close> at the end of the loop.\<close>

definition result_of :: "int \<Rightarrow> real \<Rightarrow> sim_state \<Rightarrow> result" where
  "result_of year startRoom s =
     (let (details, totalPenalty_v, affectedMonths_v) = finalize_months (monthlyMaxExcess s) 0 0 0;
          unusedRoomEndOfYear_v = startRoom - totalContributions s;
          withdrawalsToAddBack = totalWithdrawals s;
          nextLimit = nextLimit_of year;
          nextYearRoom = unusedRoomEndOfYear_v + withdrawalsToAddBack + nextLimit;
          currentYearRemaining = max 0 (startRoom - totalContributions s)
      in \<lparr>totalPenalty = totalPenalty_v,
          peakExcess = Math_max (monthlyMaxExcess s),
          currentExcess = excess s,
          remainingRoom = currentYearRemaining,
          nextYearLimit = nextYearRoom,
          res_totalContributions = totalContributions s,
          res_totalWithdrawals = totalWithdrawals s,
          unusedRoomEndOfYear = unusedRoomEndOfYear_v,
          nextAnnualLimit = nextLimit,
          affectedMonths = affectedMonths_v,
          monthlyDetails = details,
          vizData = \<lparr>labels = vizDataDates s, data = vizDataExcess s\<rparr>\<rparr>)"

text \<open>\<^verbatim>\<open>calculatePenalty(year, startRoom, txs)\<close>, as a function of the contents of \<^verbatim>\<open>txs\<close>.\<close>

definition calculatePenalty :: "int \<Rightarrow> real \<Rightarrow> real transaction list \<Rightarrow> result" where
  "calculatePenalty year startRoom txs = result_of year startRoom (simulate year startRoom txs)"

subsection \<open>Observations on a run\<close>

text \<open>
  The four amounts of the state that a transaction can change.
\<close>

definition money :: "sim_state \<Rightarrow> real \<times> real \<times> real \<times> real" where
  "money s = (excess s, unusedRoom s, totalWithdrawals s, totalContributions s)"

text \<open>
  The transactions a run has applied when it ends: the apply pointer \<^verbatim>\<open>txIndex\<close> starts
  at 0 and moves by one for each transaction applied, so they are the first
  \<^verbatim>\<open>txIndex\<close> entries of the sorted ledger.
\<close>

definition applied :: "int \<Rightarrow> real \<Rightarrow> real transaction list \<Rightarrow> real transaction list" where
  "applied year startRoom txs =
     take (txIndex (simulate year startRoom txs)) (js_sort date_cmp txs)"

subsection \<open>The days of a year\<close>

text \<open>A civil date of the year \<open>Y\<close>: a month from 0 to 11 and a day of that month.\<close>

definition in_year :: "int \<Rightarrow> utc_date \<Rightarrow> bool" where
  "in_year Y d =
     (utcFullYear d = Y \<and> utcMonth d \<le> 11 \<and> 1 \<le> utcDate d \<and>
      utcDate d \<le> days_in_month Y (utcMonth d))"

text \<open>
  January 1 and December 31 of the simulated year, as the strings the loop compares the
  dates of the ledger with.
\<close>

definition jan1_str :: "int \<Rightarrow> string" where
  "jan1_str year = format_date \<lparr>utcFullYear = MakeFullYear year, utcMonth = 0, utcDate = 1\<rparr>"

definition dec31_str :: "int \<Rightarrow> string" where
  "dec31_str year = format_date \<lparr>utcFullYear = MakeFullYear year, utcMonth = 11, utcDate = 31\<rparr>"

section \<open>The CSV import (lines 88-170)\<close>

subsection \<open>Strings\<close>

text \<open>\<^verbatim>\<open>s.split(c)\<close> for a one-character separator: at least one piece.\<close>

fun split_char :: "char \<Rightarrow> string \<Rightarrow> string list" where
  "split_char c [] = [[]]"
| "split_char c (x # xs) =
     (if x = c then [] # split_char c xs
      else (case split_char c xs of
              w # ws \<Rightarrow> (x # w) # ws
            | [] \<Rightarrow> [[x]]))"

text \<open>
  \<^verbatim>\<open>toLowerCase()\<close> on code units below 256: the letters A to Z, and the capital letters
  of Latin-1 (192 to 222, but the multiplication sign 215), move up by 32.
\<close>

definition lower_char :: "char \<Rightarrow> char" where
  "lower_char c =
     (let n = (of_char c :: nat)
      in if (65 \<le> n \<and> n \<le> 90) \<or> (192 \<le> n \<and> n \<le> 222 \<and> n \<noteq> 215)
         then char_of (n + 32) else c)"

definition toLowerCase :: "string \<Rightarrow> string" where
  "toLowerCase s = map lower_char s"

text \<open>\<^verbatim>\<open>s.includes(sub)\<close>: \<open>sub\<close> occurs in \<open>s\<close> at some position.\<close>

fun js_includes :: "string \<Rightarrow> string \<Rightarrow> bool" where
  "js_includes [] sub = (sub = [])"
| "js_includes (x # xs) sub = (take (length sub) (x # xs) = sub \<or> js_includes xs sub)"

text \<open>
  \<^verbatim>\<open>trim()\<close>: white space and line terminators off both ends. Below 256 these are the
  code units 9 to 13, 32 and 160.
\<close>

definition is_space :: "char \<Rightarrow> bool" where
  "is_space c = (let n = (of_char c :: nat) in (9 \<le> n \<and> n \<le> 13) \<or> n = 32 \<or> n = 160)"

definition trim :: "string \<Rightarrow> string" where
  "trim s = rev (dropWhile is_space (rev (dropWhile is_space s)))"

text \<open>
  \<^verbatim>\<open>line.split(csvSplitRegex)\<close>: the regular expression matches a comma that is followed,
  up to the end of the string, by an even number of double quotes.
\<close>

definition quotes_in :: "string \<Rightarrow> nat" where
  "quotes_in s = length (filter (\<lambda>c. c = CHR 0x22) s)"

fun csv_split :: "string \<Rightarrow> string list" where
  "csv_split [] = [[]]"
| "csv_split (x # xs) =
     (if x = CHR '','' \<and> even (quotes_in xs) then [] # csv_split xs
      else (case csv_split xs of
              w # ws \<Rightarrow> (x # w) # ws
            | [] \<Rightarrow> [[x]]))"

text \<open>
  \<^verbatim>\<open>c.replace(/^"|"$/g, '')\<close>: a double quote at the start is removed, and then one at the
  end of what is left.
\<close>

definition strip_quotes :: "string \<Rightarrow> string" where
  "strip_quotes s =
     (let s1 = (case s of c # r \<Rightarrow> (if c = CHR 0x22 then r else s) | [] \<Rightarrow> s)
      in if s1 \<noteq> [] \<and> last s1 = CHR 0x22 then butlast s1 else s1)"

subsection \<open>Numbers: parseFloat\<close>

text \<open>
  A JavaScript number as \<^verbatim>\<open>parseFloat\<close> returns it: NaN, the two infinities, or a finite
  value (the two zeros are one).
\<close>

datatype jsnum = NaN | PosInf | NegInf | Fin real

definition isNaN :: "jsnum \<Rightarrow> bool" where
  "isNaN n = (n = NaN)"

text \<open>\<^verbatim>\<open>n <= 0\<close>: false for NaN.\<close>

definition le_zero :: "jsnum \<Rightarrow> bool" where
  "le_zero n = (case n of NaN \<Rightarrow> False | PosInf \<Rightarrow> False | NegInf \<Rightarrow> True | Fin x \<Rightarrow> x \<le> 0)"

definition is_digit :: "char \<Rightarrow> bool" where
  "is_digit c = (CHR ''0'' \<le> c \<and> c \<le> CHR ''9'')"

definition digits_val :: "string \<Rightarrow> nat" where
  "digits_val ds = fold (\<lambda>c n. 10 * n + (of_char c - 48)) ds 0"

text \<open>
  The value of a decimal literal as a binary64 number, as far as the import depends on
  it: a magnitude of at least \<open>2^1024 - 2^970\<close> rounds to an infinity and one of at most
  \<open>2^-1075\<close> rounds to zero; the rounding of the magnitudes between is left out.
\<close>

definition to_double :: "bool \<Rightarrow> real \<Rightarrow> jsnum" where
  "to_double neg v =
     (if v \<ge> 2 ^ 1024 - 2 ^ 970 then (if neg then NegInf else PosInf)
      else if v \<le> 1 / 2 ^ 1075 then Fin 0
      else Fin (if neg then - v else v))"

text \<open>An optional sign: whether it is a minus, and the rest.\<close>

definition take_sign :: "string \<Rightarrow> bool \<times> string" where
  "take_sign s =
     (case s of
        c # r \<Rightarrow> (if c = CHR ''-'' then (True, r) else if c = CHR ''+'' then (False, r) else (False, s))
      | [] \<Rightarrow> (False, s))"

text \<open>
  The exponent part at the start of a string, when there is one: \<^verbatim>\<open>e\<close> or \<^verbatim>\<open>E\<close>, an
  optional sign and at least one digit. Otherwise the exponent is 0.
\<close>

definition exponent_of :: "string \<Rightarrow> int" where
  "exponent_of s =
     (case s of
        c # r \<Rightarrow>
          (if c = CHR ''e'' \<or> c = CHR ''E'' then
             (let (eneg, r') = take_sign r;
                  ed = takeWhile is_digit r'
              in if ed = [] then 0
                 else if eneg then - int (digits_val ed) else int (digits_val ed))
           else 0)
      | [] \<Rightarrow> 0)"

text \<open>
  \<^verbatim>\<open>parseFloat(s)\<close>: leading white space is dropped; the longest prefix that is a
  StrDecimalLiteral (a sign, then \<^verbatim>\<open>Infinity\<close> or digits with an optional fraction and an
  optional exponent) gives the value; NaN when no prefix is one.
\<close>

definition parseFloat :: "string \<Rightarrow> jsnum" where
  "parseFloat s =
     (let (neg, u) = take_sign (dropWhile is_space s)
      in if take 8 u = ''Infinity'' then (if neg then NegInf else PosInf)
         else
           (let ip = takeWhile is_digit u;
                r1 = dropWhile is_digit u;
                (fp, r2) = (case r1 of
                              c # r \<Rightarrow> (if c = CHR ''.''
                                         then (takeWhile is_digit r, dropWhile is_digit r)
                                         else ([], r1))
                            | [] \<Rightarrow> ([], r1))
            in if ip = [] \<and> fp = [] then NaN
               else
                 (let ex = exponent_of r2;
                      mant = real (digits_val (ip @ fp)) / 10 ^ length fp;
                      v = (if ex \<ge> 0 then mant * 10 ^ nat ex else mant / 10 ^ nat (- ex))
                  in to_double neg v)))"

subsection \<open>One line of the file\<close>

text \<open>\<^verbatim>\<open>/^\d{4}-\d{2}-\d{2}$/.test(s)\<close>.\<close>

definition isoRegex_test :: "string \<Rightarrow> bool" where
  "isoRegex_test s =
     (length s = 10 \<and> list_all is_digit (take 4 s) \<and> s ! 4 = CHR ''-'' \<and>
      list_all is_digit (take 2 (drop 5 s)) \<and> s ! 7 = CHR ''-'' \<and>
      list_all is_digit (drop 8 s))"

text \<open>What the loop does with one line: nothing, an error message, or a new ledger entry.\<close>

datatype line_result = Skipped | Rejected string | Admitted "jsnum transaction"

text \<open>The columns of a line (line 107), and the amount of its third column (line 123).\<close>

definition cols_of :: "string \<Rightarrow> string list" where
  "cols_of line = map (\<lambda>c. strip_quotes (trim c)) (csv_split line)"

definition parse_amount :: "string \<Rightarrow> jsnum" where
  "parse_amount amountRaw = parseFloat (filter (\<lambda>c. c \<noteq> CHR '','') amountRaw)"

text \<open>
  The body of the loop for the line \<open>raw\<close> at index \<open>i\<close> (lines 104-154). Two things come
  from the environment and are parameters: \<open>parse_date\<close>, the date part of
  \<^verbatim>\<open>new Date(dateRaw).toISOString()\<close> when the Date is valid (its parsing of free text is
  left to the implementation), and \<open>new_id\<close>, the value of
  \<^verbatim>\<open>Date.now() + Math.random()\<close> for the entry of this line.
\<close>

definition process_line ::
  "(string \<Rightarrow> string option) \<Rightarrow> (nat \<Rightarrow> real) \<Rightarrow> nat \<Rightarrow> string \<Rightarrow> line_result" where
  "process_line parse_date new_id i raw =
     (let line = trim raw
      in if line = [] then Skipped
         else
           (let cols = cols_of line
            in if length cols < 3
               then Rejected (''Line '' @ show_nat (i + 1) @ '': Invalid format'')
               else
                 (let dateRaw = cols ! 0;
                      typeRaw = cols ! 1;
                      amountRaw = cols ! 2;
                      institution_v = (if 3 < length cols then cols ! 3 else []);
                      type_v = (if typeRaw \<noteq> [] \<and> js_includes (toLowerCase typeRaw) ''withdraw''
                                then ''WITHDRAWAL'' else ''CONTRIBUTION'');
                      amount_v = parse_amount amountRaw
                  in if isNaN amount_v \<or> le_zero amount_v
                     then Rejected (''Line '' @ show_nat (i + 1) @ '': Invalid amount: '' @ amountRaw)
                     else
                       (case (if isoRegex_test dateRaw then Some dateRaw else parse_date dateRaw) of
                          None \<Rightarrow>
                            Rejected (''Line '' @ show_nat (i + 1) @ '': Invalid date: '' @ dateRaw)
                        | Some date_v \<Rightarrow>
                            Admitted \<lparr>tx_id = new_id i, date = date_v, tx_type = type_v,
                                      amount = amount_v,
                                      institution = (if institution_v = [] then ''Imported''
                                                     else institution_v)\<rparr>))))"

subsection \<open>The batch\<close>

text \<open>
  The state of the loop: the global ledger \<^verbatim>\<open>transactions\<close>, \<^verbatim>\<open>addedCount\<close> and
  \<^verbatim>\<open>errors\<close>.
\<close>

record csv_state =
  transactions :: "jsnum transaction list"
  addedCount :: nat
  errors :: "string list"

definition csv_step ::
  "(string \<Rightarrow> string option) \<Rightarrow> (nat \<Rightarrow> real) \<Rightarrow> string list \<Rightarrow> nat \<Rightarrow> csv_state \<Rightarrow> csv_state" where
  "csv_step parse_date new_id lines i st =
     (case process_line parse_date new_id i (lines ! i) of
        Skipped \<Rightarrow> st
      | Rejected msg \<Rightarrow> st\<lparr>errors := errors st @ [msg]\<rparr>
      | Admitted tx \<Rightarrow> st\<lparr>transactions := transactions st @ [tx], addedCount := addedCount st + 1\<rparr>)"

text \<open>The ledger entries and the error messages in a list of line results, in order.\<close>

fun admitted_of :: "line_result list \<Rightarrow> jsnum transaction list" where
  "admitted_of [] = []"
| "admitted_of (Admitted tx # rs) = tx # admitted_of rs"
| "admitted_of (r # rs) = admitted_of rs"

fun rejected_of :: "line_result list \<Rightarrow> string list" where
  "rejected_of [] = []"
| "rejected_of (Rejected msg # rs) = msg # rejected_of rs"
| "rejected_of (r # rs) = rejected_of rs"

text \<open>\<^verbatim>\<open>errors.join('; ')\<close>.\<close>

fun join_semi :: "string list \<Rightarrow> string" where
  "join_semi [] = []"
| "join_semi [e] = e"
| "join_semi (e # es) = e @ ''; '' @ join_semi es"

text \<open>The index the loop starts from: 1 when the first line is taken for a header (lines 93-97).\<close>

definition startIndex_of :: "string list \<Rightarrow> nat" where
  "startIndex_of lines =
     (case lines of
        l0 # rest \<Rightarrow> (if js_includes (toLowerCase l0) ''date'' then 1 else 0)
      | [] \<Rightarrow> 0)"

text \<open>
  \<^verbatim>\<open>processCsvData(text, errorEl)\<close>: the ledger after the import, the two counters, and
  the text set on \<^verbatim>\<open>errorEl\<close> when it is shown (\<open>None\<close> when it is left hidden). The
  loop runs \<open>i\<close> from \<open>startIndex\<close> to the last line, whatever a line does.
\<close>

definition processCsvData ::
  "(string \<Rightarrow> string option) \<Rightarrow> (nat \<Rightarrow> real) \<Rightarrow> string \<Rightarrow> jsnum transaction list
     \<Rightarrow> csv_state \<times> string option" where
  "processCsvData parse_date new_id text_v transactions0 =
     (let lines = split_char (CHR 0x0A) text_v;
          startIndex = startIndex_of lines;
          st = fold (csv_step parse_date new_id lines) [startIndex ..< length lines]
                 \<lparr>transactions = transactions0, addedCount = 0, errors = []\<rparr>
      in if addedCount st > 0
         then (st, if length (errors st) > 0
                   then Some (''Imported '' @ show_nat (addedCount st) @ '' items. Skipped '' @
                              show_nat (length (errors st)) @ '' errors. Details: '' @
                              join_semi (errors st))
                   else None)
         else (st, Some ''No valid transactions found in CSV. Check format.''))"

section \<open>The ledger as a shared array\<close>

text \<open>
  \<^verbatim>\<open>calculatePenalty\<close> receives the global array \<^verbatim>\<open>transactions\<close> by reference. To see
  what a call does to it, the arrays and the ledger entries are kept in a store: an array
  (by its address, an index into \<open>arrays\<close>) holds references to entries (indexes into
  \<open>entries\<close>). The store also holds the clock, the value that \<^verbatim>\<open>Date.now()\<close> would
  return. A new array is allocated at the next free address.
\<close>

type_synonym ref = nat

record js_store =
  arrays :: "ref list list"
  entries :: "real transaction list"
  clock :: real

text \<open>\<^verbatim>\<open>[...txs]\<close>: a new array with the references of \<open>txs\<close>; its address and the new store.\<close>

definition spread_copy :: "ref \<Rightarrow> js_store \<Rightarrow> ref \<times> js_store" where
  "spread_copy txs h = (length (arrays h), h\<lparr>arrays := arrays h @ [arrays h ! txs]\<rparr>)"

text \<open>
  \<^verbatim>\<open>a.sort(cmp)\<close>: sorts the array at the address \<open>a\<close> in place, and returns the same
  address.
\<close>

definition sort_in_place :: "(ref \<Rightarrow> ref \<Rightarrow> int) \<Rightarrow> ref \<Rightarrow> js_store \<Rightarrow> js_store" where
  "sort_in_place cmp a h = h\<lparr>arrays := (arrays h)[a := js_sort cmp (arrays h ! a)]\<rparr>"

text \<open>The ledger entries an array refers to, in the order of the array.\<close>

definition contents :: "js_store \<Rightarrow> ref \<Rightarrow> real transaction list" where
  "contents h a = map (\<lambda>r. entries h ! r) (arrays h ! a)"

text \<open>
  \<^verbatim>\<open>calculatePenalty(year, startRoom, txs)\<close> on the store: the copy of line 269 is sorted in
  place, with the comparator reading the dates of the entries; the loop reads the entries
  of the sorted copy (\<^verbatim>\<open>tx.date\<close>, \<^verbatim>\<open>tx.type\<close>, \<^verbatim>\<open>tx.amount\<close>) and writes to no array and
  to no entry; the clock is never read. The result and the store after the call.
\<close>

definition calculatePenalty_on :: "int \<Rightarrow> real \<Rightarrow> ref \<Rightarrow> js_store \<Rightarrow> result \<times> js_store" where
  "calculatePenalty_on year startRoom txs h =
     (let (sortedTxs, h1) = spread_copy txs h;
          h2 = sort_in_place (\<lambda>a b. date_cmp (entries h1 ! a) (entries h1 ! b)) sortedTxs h1;
          s = simulate_sorted year startRoom (contents h2 sortedTxs)
      in (result_of year startRoom s, h2))"

section \<open>Examples\<close>

subsection \<open>Ledgers and states\<close>

text \<open>
  Scenario A of the specification, in 2024: room 10,000; contribute 15,000 on January 1,
  withdraw 2,000 on January 2, contribute 2,000 on January 3. The ledger holds the three
  entries latest first.
\<close>

definition scenario_A :: "real transaction list" where
  "scenario_A =
     [\<lparr>tx_id = 3, date = ''2024-01-03'', tx_type = ''CONTRIBUTION'', amount = 2000,
       institution = ''RBC''\<rparr>,
      \<lparr>tx_id = 2, date = ''2024-01-02'', tx_type = ''WITHDRAWAL'', amount = 2000,
       institution = ''RBC''\<rparr>,
      \<lparr>tx_id = 1, date = ''2024-01-01'', tx_type = ''CONTRIBUTION'', amount = 15000,
       institution = ''RBC''\<rparr>]"




text \<open>
  A ledger for 2024 that holds a contribution dated in 2023: the contribution of
  February 2024 comes first in the ledger and second in the sorted ledger.
\<close>

definition ledger_with_2023 :: "real transaction list" where
  "ledger_with_2023 =
     [\<lparr>tx_id = 1, date = ''2024-02-01'', tx_type = ''CONTRIBUTION'', amount = 300,
       institution = ''RBC''\<rparr>,
      \<lparr>tx_id = 2, date = ''2023-12-31'', tx_type = ''CONTRIBUTION'', amount = 500,
       institution = ''RBC''\<rparr>]"

text \<open>A store with one array, at address 0, of references to the three entries of Scenario A.\<close>

definition store_A :: js_store where
  "store_A = \<lparr>arrays = [[0, 1, 2]], entries = scenario_A, clock = 0\<rparr>"

subsection \<open>Lines of a CSV file\<close>

text \<open>A data line whose amount column reads \<^verbatim>\<open>Infinity\<close>.\<close>

definition line_infinity :: string where
  "line_infinity = ''2024-01-15,Contribution,Infinity,RBC''"

text \<open>A data line whose amount column is not a number.\<close>

definition line_abc :: string where
  "line_abc = ''2024-06-20,Withdrawal,abc,Tangerine''"

text \<open>A data line whose institution column holds the letters \<^verbatim>\<open>date\<close>.\<close>

definition line_mandate :: string where
  "line_mandate = ''2024-01-15,Contribution,5000,Mandate Bank''"

section \<open>Properties\<close>

subsection \<open>What a transaction leaves alone\<close>

lemma apply_tx_frame:
  "txIndex (apply_tx tx s) = txIndex s"
  "monthlyMaxExcess (apply_tx tx s) = monthlyMaxExcess s"
  "vizDataDates (apply_tx tx s) = vizDataDates s"
  "vizDataExcess (apply_tx tx s) = vizDataExcess s"
  by (simp_all add: apply_tx_def Let_def)

lemma apply_tx_txIndex_update:
  "apply_tx tx (s\<lparr>txIndex := k\<rparr>) = (apply_tx tx s)\<lparr>txIndex := k\<rparr>"
  by (simp add: apply_tx_def Let_def)

lemma fold_apply_tx_txIndex_update:
  "fold apply_tx ts (s\<lparr>txIndex := k\<rparr>) = (fold apply_tx ts s)\<lparr>txIndex := k\<rparr>"
  by (induction ts arbitrary: s) (simp_all add: apply_tx_txIndex_update)

lemma fold_apply_tx_frame:
  "txIndex (fold apply_tx ts s) = txIndex s"
  "monthlyMaxExcess (fold apply_tx ts s) = monthlyMaxExcess s"
  "vizDataDates (fold apply_tx ts s) = vizDataDates s"
  "vizDataExcess (fold apply_tx ts s) = vizDataExcess s"
  by (induction ts arbitrary: s) (simp_all add: apply_tx_frame)

subsection \<open>The inner loop applies a segment of the sorted ledger\<close>

lemma apply_day_txs_fold:
  "txIndex s \<le> length sortedTxs \<Longrightarrow>
   \<exists>n. txIndex s + n \<le> length sortedTxs \<and>
       apply_day_txs dateStr sortedTxs s =
         (fold apply_tx (take n (drop (txIndex s) sortedTxs)) s)\<lparr>txIndex := txIndex s + n\<rparr> \<and>
       (\<forall>t \<in> set (take n (drop (txIndex s) sortedTxs)). date t = dateStr)"
proof (induction dateStr sortedTxs s rule: apply_day_txs.induct)
  case (1 dateStr sortedTxs s)
  show ?case
  proof (cases "txIndex s < length sortedTxs \<and> date (sortedTxs ! txIndex s) = dateStr")
    case False
    then have "apply_day_txs dateStr sortedTxs s = s"
      by (subst apply_day_txs.simps) auto
    then show ?thesis using "1.prems" by (intro exI[of _ 0]) simp
  next
    case True
    let ?tx = "sortedTxs ! txIndex s"
    let ?s' = "(apply_tx ?tx s)\<lparr>txIndex := txIndex s + 1\<rparr>"
    have idx: "txIndex ?s' = txIndex s + 1" by simp
    from True have le: "txIndex ?s' \<le> length sortedTxs" by simp
    from "1.IH"[OF _ _ le] True obtain n where
      n: "txIndex ?s' + n \<le> length sortedTxs"
      "apply_day_txs dateStr sortedTxs ?s' =
         (fold apply_tx (take n (drop (txIndex ?s') sortedTxs)) ?s')\<lparr>txIndex := txIndex ?s' + n\<rparr>"
      "\<forall>t \<in> set (take n (drop (txIndex ?s') sortedTxs)). date t = dateStr"
      by blast
    have unf: "apply_day_txs dateStr sortedTxs s = apply_day_txs dateStr sortedTxs ?s'"
      using True by (subst apply_day_txs.simps) simp
    have dr: "drop (txIndex s) sortedTxs = ?tx # drop (txIndex s + 1) sortedTxs"
      using True by (simp add: Cons_nth_drop_Suc)
    show ?thesis
    proof (intro exI[of _ "Suc n"] conjI)
      show "txIndex s + Suc n \<le> length sortedTxs" using n(1) by simp
      show "apply_day_txs dateStr sortedTxs s =
        (fold apply_tx (take (Suc n) (drop (txIndex s) sortedTxs)) s)\<lparr>txIndex := txIndex s + Suc n\<rparr>"
        unfolding unf n(2) dr by (simp add: fold_apply_tx_txIndex_update)
      show "\<forall>t \<in> set (take (Suc n) (drop (txIndex s) sortedTxs)). date t = dateStr"
        using n(3) True unfolding dr by simp
    qed
  qed
qed

lemma money_apply_tx_cong:
  "money s = money t \<Longrightarrow> money (apply_tx tx s) = money (apply_tx tx t)"
  by (auto simp: money_def apply_tx_def Let_def)

lemma money_fold_cong:
  "money s = money t \<Longrightarrow> money (fold apply_tx ts s) = money (fold apply_tx ts t)"
proof (induction ts arbitrary: s t)
  case Nil
  then show ?case by simp
next
  case (Cons tx ts)
  from Cons.prems have "money (apply_tx tx s) = money (apply_tx tx t)"
    by (rule money_apply_tx_cong)
  from Cons.IH[OF this] show ?case by simp
qed

lemma money_txIndex_update [simp]: "money (s\<lparr>txIndex := k\<rparr>) = money s"
  by (simp add: money_def)

lemma day_body_fold:
  assumes "txIndex s \<le> length sortedTxs"
  shows "\<exists>n. txIndex s + n \<le> length sortedTxs \<and>
       txIndex (day_body sortedTxs iterDate s) = txIndex s + n \<and>
       money (day_body sortedTxs iterDate s) =
         money (fold apply_tx (take n (drop (txIndex s) sortedTxs)) s) \<and>
       (\<forall>t \<in> set (take n (drop (txIndex s) sortedTxs)). date t = format_date iterDate)"
proof -
  from apply_day_txs_fold[OF assms, of "format_date iterDate"] obtain n where
    n: "txIndex s + n \<le> length sortedTxs"
       "apply_day_txs (format_date iterDate) sortedTxs s =
         (fold apply_tx (take n (drop (txIndex s) sortedTxs)) s)\<lparr>txIndex := txIndex s + n\<rparr>"
       "\<forall>t \<in> set (take n (drop (txIndex s) sortedTxs)). date t = format_date iterDate"
    by blast
  have "txIndex (day_body sortedTxs iterDate s) = txIndex s + n"
    by (simp add: day_body_def Let_def n(2))
  moreover have "money (day_body sortedTxs iterDate s) =
         money (fold apply_tx (take n (drop (txIndex s) sortedTxs)) s)"
    by (simp add: day_body_def Let_def n(2) money_def)
  ultimately show ?thesis using n(1,3) by blast
qed

lemma daily_loop_fold:
  "daily_loop endDate sortedTxs iterDate s =
     fold (day_body sortedTxs) (days_from endDate iterDate) s"
proof (induction endDate sortedTxs iterDate s rule: daily_loop.induct)
  case (1 endDate sortedTxs iterDate s)
  show ?case
  proof (cases "date_le iterDate endDate")
    case True
    then show ?thesis
      using "1.IH" by (subst daily_loop.simps, subst days_from.simps) simp
  next
    case False
    then show ?thesis by (subst daily_loop.simps, subst days_from.simps) simp
  qed
qed

lemma simulate_fold:
  "simulate year startRoom txs =
     fold (day_body (js_sort date_cmp txs)) (year_days year) (init_state startRoom)"
  by (simp add: simulate_def simulate_sorted_def year_days_def Let_def daily_loop_fold
        split: option.splits)

lemma day_states_fst: "map fst (day_states sortedTxs ds s) = ds"
  by (induction ds arbitrary: s) simp_all

lemma day_states_last:
  "last (s # map snd (day_states sortedTxs ds s)) = fold (day_body sortedTxs) ds s"
  by (induction ds arbitrary: s) simp_all

lemma day_states_append:
  "day_states sortedTxs (ds @ es) s =
     day_states sortedTxs ds s @ day_states sortedTxs es (fold (day_body sortedTxs) ds s)"
  by (induction ds arbitrary: s) simp_all

lemma days_fold:
  "txIndex s \<le> length sortedTxs \<Longrightarrow>
   \<exists>n. txIndex s + n \<le> length sortedTxs \<and>
       txIndex (fold (day_body sortedTxs) ds s) = txIndex s + n \<and>
       money (fold (day_body sortedTxs) ds s) =
         money (fold apply_tx (take n (drop (txIndex s) sortedTxs)) s) \<and>
       (\<forall>t \<in> set (take n (drop (txIndex s) sortedTxs)). date t \<in> format_date ` set ds)"
proof (induction ds arbitrary: s)
  case Nil
  then show ?case by (intro exI[of _ 0]) simp
next
  case (Cons d ds)
  let ?s1 = "day_body sortedTxs d s"
  from day_body_fold[OF Cons.prems, of d] obtain n where
    n: "txIndex s + n \<le> length sortedTxs" "txIndex ?s1 = txIndex s + n"
       "money ?s1 = money (fold apply_tx (take n (drop (txIndex s) sortedTxs)) s)"
       "\<forall>t \<in> set (take n (drop (txIndex s) sortedTxs)). date t = format_date d"
    by blast
  have le1: "txIndex ?s1 \<le> length sortedTxs" using n by simp
  from Cons.IH[OF le1] obtain m where
    m: "txIndex ?s1 + m \<le> length sortedTxs"
       "txIndex (fold (day_body sortedTxs) ds ?s1) = txIndex ?s1 + m"
       "money (fold (day_body sortedTxs) ds ?s1) =
          money (fold apply_tx (take m (drop (txIndex ?s1) sortedTxs)) ?s1)"
       "\<forall>t \<in> set (take m (drop (txIndex ?s1) sortedTxs)). date t \<in> format_date ` set ds"
    by blast
  have split: "take (n + m) (drop (txIndex s) sortedTxs) =
        take n (drop (txIndex s) sortedTxs) @ take m (drop (txIndex ?s1) sortedTxs)"
    unfolding n(2) take_add drop_drop by (simp add: add.commute)
  have "money (fold (day_body sortedTxs) (d # ds) s) =
        money (fold apply_tx (take m (drop (txIndex ?s1) sortedTxs)) ?s1)"
    using m(3) by simp
  also have "\<dots> = money (fold apply_tx (take m (drop (txIndex ?s1) sortedTxs))
                       (fold apply_tx (take n (drop (txIndex s) sortedTxs)) s))"
    by (rule money_fold_cong[OF n(3)])
  also have "\<dots> = money (fold apply_tx (take (n + m) (drop (txIndex s) sortedTxs)) s)"
    unfolding split by simp
  finally have mon: "money (fold (day_body sortedTxs) (d # ds) s) =
        money (fold apply_tx (take (n + m) (drop (txIndex s) sortedTxs)) s)" .
  have dates: "\<forall>t \<in> set (take (n + m) (drop (txIndex s) sortedTxs)).
        date t \<in> format_date ` set (d # ds)"
    unfolding split using n(4) m(4) by auto
  have le: "txIndex s + (n + m) \<le> length sortedTxs"
    using m(1) n(2) by simp
  have idx: "txIndex (fold (day_body sortedTxs) (d # ds) s) = txIndex s + (n + m)"
    using m(2) n(2) by simp
  show ?case
    by (rule exI[of _ "n + m"]) (intro conjI le idx mon dates)
qed

lemma init_state_txIndex [simp]: "txIndex (init_state r) = 0"
  by (simp add: init_state_def Let_def)

lemma run_applied:
  "money (simulate year startRoom txs) =
     money (fold apply_tx (applied year startRoom txs) (init_state startRoom))"
  "\<forall>t \<in> set (applied year startRoom txs). date t \<in> format_date ` set (year_days year)"
  "txIndex (simulate year startRoom txs) \<le> length (js_sort date_cmp txs)"
proof -
  have "txIndex (init_state startRoom) \<le> length (js_sort date_cmp txs)" by simp
  from days_fold[OF this, of "year_days year"] obtain n where
    n: "n \<le> length (js_sort date_cmp txs)"
       "txIndex (simulate year startRoom txs) = n"
       "money (simulate year startRoom txs) =
          money (fold apply_tx (take n (js_sort date_cmp txs)) (init_state startRoom))"
       "\<forall>t \<in> set (take n (js_sort date_cmp txs)). date t \<in> format_date ` set (year_days year)"
    unfolding simulate_fold by auto
  show "money (simulate year startRoom txs) =
     money (fold apply_tx (applied year startRoom txs) (init_state startRoom))"
    unfolding applied_def n(2) by (rule n(3))
  show "\<forall>t \<in> set (applied year startRoom txs). date t \<in> format_date ` set (year_days year)"
    unfolding applied_def n(2) by (rule n(4))
  show "txIndex (simulate year startRoom txs) \<le> length (js_sort date_cmp txs)"
    using n(1,2) by simp
qed

subsection \<open>The sorted ledger\<close>

lemma date_cmp_le_0: "date_cmp a b \<le> 0 \<longleftrightarrow> date a \<le> date b"
  by (auto simp: date_cmp_def)

lemma insert_by_date_cmp: "insert_by date_cmp x ys = insort_key date x ys"
  by (induction ys) (simp_all add: date_cmp_le_0)

lemma js_sort_date_cmp: "js_sort date_cmp txs = sort_key date txs"
proof -
  have "insert_by date_cmp = (insort_key date :: 'a transaction \<Rightarrow> _)"
    by (intro ext) (rule insert_by_date_cmp)
  then show ?thesis by (simp add: js_sort_def sort_key_def)
qed

lemma set_js_sort [simp]: "set (js_sort date_cmp txs) = set txs"
  by (simp add: js_sort_date_cmp)

lemma length_js_sort [simp]: "length (js_sort date_cmp txs) = length txs"
  by (simp add: js_sort_date_cmp)

lemma js_sort_Nil [simp]: "js_sort cmp [] = []"
  by (simp add: js_sort_def)

subsection \<open>One transaction\<close>

lemma money_simps:
  "money s = money t \<Longrightarrow> excess s = excess t"
  "money s = money t \<Longrightarrow> unusedRoom s = unusedRoom t"
  "money s = money t \<Longrightarrow> totalWithdrawals s = totalWithdrawals t"
  "money s = money t \<Longrightarrow> totalContributions s = totalContributions t"
  by (simp_all add: money_def)



lemma apply_tx_other:
  "tx_type tx \<noteq> ''CONTRIBUTION'' \<Longrightarrow> tx_type tx \<noteq> ''WITHDRAWAL'' \<Longrightarrow> apply_tx tx s = s"
  by (simp add: apply_tx_def)







subsection \<open>The state after each day\<close>




lemma simulate_days_fst: "map fst (simulate_days year startRoom txs) = year_days year"
  by (simp add: simulate_days_def day_states_fst)

lemma simulate_days_last:
  "simulate year startRoom txs =
     last (init_state startRoom # map snd (simulate_days year startRoom txs))"
  by (simp only: simulate_days_def simulate_fold day_states_last)

lemma apply_day_txs_frame:
  "monthlyMaxExcess (apply_day_txs dateStr sortedTxs s) = monthlyMaxExcess s \<and>
   vizDataDates (apply_day_txs dateStr sortedTxs s) = vizDataDates s \<and>
   vizDataExcess (apply_day_txs dateStr sortedTxs s) = vizDataExcess s"
proof (induction dateStr sortedTxs s rule: apply_day_txs.induct)
  case (1 dateStr sortedTxs s)
  show ?case
  proof (cases "txIndex s < length sortedTxs \<and> date (sortedTxs ! txIndex s) = dateStr")
    case False
    then have "apply_day_txs dateStr sortedTxs s = s"
      by (subst apply_day_txs.simps) auto
    then show ?thesis by simp
  next
    case True
    then have "apply_day_txs dateStr sortedTxs s = apply_day_txs dateStr sortedTxs
                ((apply_tx (sortedTxs ! txIndex s) s)\<lparr>txIndex := txIndex s + 1\<rparr>)"
      by (subst apply_day_txs.simps) simp
    with "1.IH" True show ?thesis by (simp add: apply_tx_frame)
  qed
qed

lemma day_body_viz:
  "vizDataExcess (day_body sortedTxs d s) = vizDataExcess s @ [excess (day_body sortedTxs d s)]"
  "vizDataDates (day_body sortedTxs d s) = vizDataDates s @ [format_date d]"
  by (simp_all add: day_body_def Let_def apply_day_txs_frame)

lemma fold_day_body_viz:
  "vizDataExcess (fold (day_body sortedTxs) ds s) =
     vizDataExcess s @ map (\<lambda>p. excess (snd p)) (day_states sortedTxs ds s)"
  "vizDataDates (fold (day_body sortedTxs) ds s) = vizDataDates s @ map format_date ds"
  by (induction ds arbitrary: s) (simp_all add: day_body_viz)

lemma simulate_viz:
  "vizDataExcess (simulate year startRoom txs) =
     map (\<lambda>p. excess (snd p)) (simulate_days year startRoom txs)"
  "vizDataDates (simulate year startRoom txs) = map format_date (year_days year)"
  by (simp_all add: simulate_fold simulate_days_def fold_day_body_viz init_state_def Let_def)

subsection \<open>C6: non-negativity, and room that never grows\<close>



subsection \<open>C3: the state before the first transaction\<close>

lemma simulate_empty_money:
  "money (simulate year startRoom []) = money (init_state startRoom)"
  using run_applied(1)[of year startRoom "[]"] by (simp add: applied_def)

text \<open>
  Claim C3. The loop of \<open>simulate\<close> starts from \<open>init_state startRoom\<close>, in which no
  transaction has been applied (\<open>txIndex\<close> is 0). There, a negative starting room is the
  excess and leaves no room; another starting room is the room and leaves no excess. With
  starting room -500 the excess is 500 and the room 0, and with an empty ledger they stay so
  to the end of the run, whatever the year.
\<close>

theorem initial_state_from_startRoom:
  "simulate year startRoom txs =
     fold (day_body (js_sort date_cmp txs)) (year_days year) (init_state startRoom) \<and>
   txIndex (init_state startRoom) = 0 \<and>
   excess (init_state startRoom) = (if startRoom < 0 then \<bar>startRoom\<bar> else 0) \<and>
   unusedRoom (init_state startRoom) = (if startRoom < 0 then 0 else startRoom) \<and>
   excess (init_state (- 500)) = 500 \<and> unusedRoom (init_state (- 500)) = 0 \<and>
   excess (simulate year (- 500) []) = 500 \<and> unusedRoom (simulate year (- 500) []) = 0"
proof -
  have "excess (simulate year (- 500) []) = excess (init_state (- 500))"
       "unusedRoom (simulate year (- 500) []) = unusedRoom (init_state (- 500))"
    using simulate_empty_money[of year "- 500"] by (rule money_simps)+
  then show ?thesis
    by (simp add: simulate_fold init_state_def Let_def)
qed

subsection \<open>C1: what one transaction does\<close>



subsection \<open>C5: the projection\<close>



lemma init_state_totals [simp]:
  "totalContributions (init_state r) = 0" "totalWithdrawals (init_state r) = 0"
  by (simp_all add: init_state_def Let_def)


lemma calculatePenalty_fields:
  "remainingRoom (calculatePenalty year startRoom txs) =
     max 0 (startRoom - totalContributions (simulate year startRoom txs))"
  "nextYearLimit (calculatePenalty year startRoom txs) =
     startRoom - totalContributions (simulate year startRoom txs) +
     totalWithdrawals (simulate year startRoom txs) + nextLimit_of year"
  "res_totalContributions (calculatePenalty year startRoom txs) =
     totalContributions (simulate year startRoom txs)"
  "res_totalWithdrawals (calculatePenalty year startRoom txs) =
     totalWithdrawals (simulate year startRoom txs)"
  "unusedRoomEndOfYear (calculatePenalty year startRoom txs) =
     startRoom - totalContributions (simulate year startRoom txs)"
  "nextAnnualLimit (calculatePenalty year startRoom txs) = nextLimit_of year"
  "currentExcess (calculatePenalty year startRoom txs) = excess (simulate year startRoom txs)"
  "peakExcess (calculatePenalty year startRoom txs) =
     Math_max (monthlyMaxExcess (simulate year startRoom txs))"
  by (simp_all add: calculatePenalty_def result_of_def Let_def split: prod.splits)


subsection \<open>The monthly records\<close>










lemma init_state_monthly [simp]: "monthlyMaxExcess (init_state r) = replicate 12 0"
  by (simp add: init_state_def Let_def)






subsection \<open>C2: penalties, totals and peaks\<close>


subsection \<open>C4: the order in which transactions are applied\<close>





subsection \<open>The calendar\<close>

lemma days_in_month_le_31: "days_in_month y m \<le> 31"
  by (simp add: days_in_month_def)

lemma next_day_in_year:
  assumes "in_year Y d"
  shows "in_year Y (next_day d) \<or>
         \<not> date_le (next_day d) \<lparr>utcFullYear = Y, utcMonth = 11, utcDate = 31\<rparr>"
  using assms by (auto simp: in_year_def next_day_def date_le_def days_in_month_def)

lemma days_from_in_year:
  "in_year Y iterDate \<or> \<not> date_le iterDate endDate \<Longrightarrow>
   endDate = \<lparr>utcFullYear = Y, utcMonth = 11, utcDate = 31\<rparr> \<Longrightarrow>
   \<forall>d \<in> set (days_from endDate iterDate). in_year Y d"
proof (induction endDate iterDate rule: days_from.induct)
  case (1 endDate iterDate)
  show ?case
  proof (cases "date_le iterDate endDate")
    case False
    then show ?thesis by (subst days_from.simps) simp
  next
    case True
    with "1.prems" have iy: "in_year Y iterDate" by blast
    from next_day_in_year[OF iy] "1.prems"(2)
    have "in_year Y (next_day iterDate) \<or> \<not> date_le (next_day iterDate) endDate" by simp
    from "1.IH"[OF True this "1.prems"(2)] iy True show ?thesis
      by (subst days_from.simps) simp
  qed
qed

lemma year_days_in_year: "\<forall>d \<in> set (year_days year). in_year (MakeFullYear year) d"
proof (cases "Date_UTC year 0 1")
  case None
  show ?thesis unfolding year_days_def None by simp
next
  case (Some startDate)
  note sd = this
  show ?thesis
  proof (cases "Date_UTC year 11 31")
    case None
    show ?thesis unfolding year_days_def sd None by simp
  next
    case (Some endDate)
    have s: "startDate = \<lparr>utcFullYear = MakeFullYear year, utcMonth = 0, utcDate = 1\<rparr>"
      using sd by (simp add: Date_UTC_def Let_def split: if_splits)
    have e: "endDate = \<lparr>utcFullYear = MakeFullYear year, utcMonth = 11, utcDate = 31\<rparr>"
      using Some by (simp add: Date_UTC_def Let_def split: if_splits)
    have "in_year (MakeFullYear year) startDate"
      by (simp add: s in_year_def days_in_month_def)
    then have "\<forall>d \<in> set (days_from endDate startDate). in_year (MakeFullYear year) d"
      using days_from_in_year[of "MakeFullYear year" startDate endDate] e by blast
    then show ?thesis unfolding year_days_def sd Some by simp
  qed
qed

text \<open>
  The loop walks 366 days in a leap year and 365 in another, February 29 among them when
  there is one, and no day at all when the year is beyond the range of Date.
\<close>

lemma year_days_examples:
  "length (year_days 2024) = 366"
  "length (year_days 2023) = 365"
  "length (year_days 1900) = 365"
  "length (year_days 2000) = 366"
  "year_days 275760 = []"
  "format_date (year_days 2024 ! 59) = ''2024-02-29''"
  "format_date (year_days 2024 ! 365) = ''2024-12-31''"
  by code_simp+

subsection \<open>The order of the formatted days\<close>

lemma lex_append_same: "(p @ a \<le> p @ b) = (a \<le> (b :: string))"
  by (induction p) simp_all

lemma lex_append_eq_length:
  "length a = length b \<Longrightarrow> (a @ x \<le> b @ y) = (a < b \<or> a = b \<and> x \<le> (y :: string))"
  by (induction a b rule: list_induct2) auto

lemma pad_day_bounds:
  assumes "1 \<le> d" "d \<le> 31"
  shows "length (padStart2 (show_nat d)) = 2 \<and> ''01'' \<le> padStart2 (show_nat d) \<and>
         padStart2 (show_nat d) \<le> ''31''"
proof -
  from assms have "d = 1 \<or> d = 2 \<or> d = 3 \<or> d = 4 \<or> d = 5 \<or> d = 6 \<or> d = 7 \<or> d = 8 \<or> d = 9 \<or> d = 10 \<or>
    d = 11 \<or> d = 12 \<or> d = 13 \<or> d = 14 \<or> d = 15 \<or> d = 16 \<or> d = 17 \<or> d = 18 \<or> d = 19 \<or> d = 20 \<or>
    d = 21 \<or> d = 22 \<or> d = 23 \<or> d = 24 \<or> d = 25 \<or> d = 26 \<or> d = 27 \<or> d = 28 \<or> d = 29 \<or> d = 30 \<or>
    d = 31"
    by arith
  then show ?thesis
    by (elim disjE) (simp_all add: padStart2_def show_nat.simps digit_char_def)
qed

lemma pad_month_bounds:
  assumes "m \<le> 11"
  shows "length (padStart2 (show_nat (m + 1))) = 2 \<and> ''01'' \<le> padStart2 (show_nat (m + 1)) \<and>
         padStart2 (show_nat (m + 1)) \<le> ''12''"
proof -
  from assms have "m = 0 \<or> m = 1 \<or> m = 2 \<or> m = 3 \<or> m = 4 \<or> m = 5 \<or> m = 6 \<or> m = 7 \<or> m = 8 \<or> m = 9 \<or>
    m = 10 \<or> m = 11"
    by arith
  then show ?thesis
    by (elim disjE) (simp_all add: padStart2_def show_nat.simps digit_char_def)
qed

lemma format_date_bounds:
  assumes "in_year Y d"
  shows "format_date \<lparr>utcFullYear = Y, utcMonth = 0, utcDate = 1\<rparr> \<le> format_date d"
    and "format_date d \<le> format_date \<lparr>utcFullYear = Y, utcMonth = 11, utcDate = 31\<rparr>"
proof -
  let ?M = "padStart2 (show_nat (utcMonth d + 1))"
  let ?D = "padStart2 (show_nat (utcDate d))"
  from assms have y: "utcFullYear d = Y" and m: "utcMonth d \<le> 11"
    and d1: "1 \<le> utcDate d" and d2: "utcDate d \<le> 31"
    using days_in_month_le_31[of Y "utcMonth d"] by (auto simp: in_year_def)
  note M = pad_month_bounds[OF m]
  note D = pad_day_bounds[OF d1 d2]
  have fmt: "format_date d = (show_int Y @ ''-'') @ (?M @ ''-'' @ ?D)"
    by (simp add: format_date_def Let_def y)
  have jan: "format_date \<lparr>utcFullYear = Y, utcMonth = 0, utcDate = 1\<rparr> =
               (show_int Y @ ''-'') @ (''01'' @ ''-'' @ ''01'')"
    by (simp add: format_date_def Let_def padStart2_def show_nat.simps digit_char_def)
  have dec: "format_date \<lparr>utcFullYear = Y, utcMonth = 11, utcDate = 31\<rparr> =
               (show_int Y @ ''-'') @ (''12'' @ ''-'' @ ''31'')"
    by (simp add: format_date_def Let_def padStart2_def show_nat.simps digit_char_def)
  have lo: "''01'' @ ''-'' @ ''01'' \<le> ?M @ ''-'' @ ?D"
    using M D by (subst lex_append_eq_length) (auto simp: lex_append_same[of "''-''", simplified])
  have hi: "?M @ ''-'' @ ?D \<le> ''12'' @ ''-'' @ ''31''"
    using M D by (subst lex_append_eq_length) (auto simp: lex_append_same[of "''-''", simplified])
  show "format_date \<lparr>utcFullYear = Y, utcMonth = 0, utcDate = 1\<rparr> \<le> format_date d"
    unfolding fmt jan lex_append_same by (rule lo)
  show "format_date d \<le> format_date \<lparr>utcFullYear = Y, utcMonth = 11, utcDate = 31\<rparr>"
    unfolding fmt dec lex_append_same by (rule hi)
qed

lemma year_days_bounds:
  "s \<in> format_date ` set (year_days year) \<Longrightarrow> jan1_str year \<le> s \<and> s \<le> dec31_str year"
  using year_days_in_year[of year] format_date_bounds
  by (auto simp: jan1_str_def dec31_str_def)

subsection \<open>A run whose apply pointer is stuck\<close>

lemma apply_day_txs_Nil: "apply_day_txs dateStr [] s = s"
  by (subst apply_day_txs.simps) simp

lemma apply_day_txs_stuck:
  "txIndex s < length sortedTxs \<Longrightarrow> date (sortedTxs ! txIndex s) \<noteq> dateStr \<Longrightarrow>
   apply_day_txs dateStr sortedTxs s = s"
  by (subst apply_day_txs.simps) simp

lemma day_body_stuck:
  "txIndex s < length sortedTxs \<Longrightarrow> date (sortedTxs ! txIndex s) \<noteq> format_date d \<Longrightarrow>
   day_body sortedTxs d s = day_body [] d s"
  by (simp add: day_body_def apply_day_txs_stuck apply_day_txs_Nil)

lemma day_body_Nil_txIndex: "txIndex (day_body [] d s) = txIndex s"
  by (simp add: day_body_def Let_def apply_day_txs_Nil)

lemma fold_day_body_stuck:
  "txIndex s < length sortedTxs \<Longrightarrow>
   date (sortedTxs ! txIndex s) \<notin> format_date ` set ds \<Longrightarrow>
   fold (day_body sortedTxs) ds s = fold (day_body []) ds s"
proof (induction ds arbitrary: s)
  case Nil
  then show ?case by simp
next
  case (Cons d ds)
  from Cons.prems have ne: "date (sortedTxs ! txIndex s) \<noteq> format_date d"
    and rest: "date (sortedTxs ! txIndex s) \<notin> format_date ` set ds" by auto
  have eq: "day_body sortedTxs d s = day_body [] d s"
    by (rule day_body_stuck[OF Cons.prems(1) ne])
  have idx: "txIndex (day_body [] d s) = txIndex s" by (rule day_body_Nil_txIndex)
  have "fold (day_body sortedTxs) ds (day_body [] d s) = fold (day_body []) ds (day_body [] d s)"
    by (rule Cons.IH) (simp_all add: idx Cons.prems(1) rest)
  then show ?case by (simp add: eq)
qed

lemma simulate_stuck:
  assumes "txs \<noteq> []" "date (js_sort date_cmp txs ! 0) < jan1_str year"
  shows "simulate year startRoom txs = simulate year startRoom []"
proof -
  have "date (js_sort date_cmp txs ! 0) \<notin> format_date ` set (year_days year)"
    using year_days_bounds[of "date (js_sort date_cmp txs ! 0)" year] assms(2) by auto
  moreover have "txIndex (init_state startRoom) < length (js_sort date_cmp txs)"
    using assms(1) by simp
  ultimately show ?thesis
    unfolding simulate_fold js_sort_Nil
    using fold_day_body_stuck[of "init_state startRoom" "js_sort date_cmp txs" "year_days year"]
    by simp
qed

lemma js_sort_eq_Nil [simp]: "js_sort date_cmp txs = [] \<longleftrightarrow> txs = []"
  using length_js_sort[of txs] by (metis length_0_conv)

lemma sorted_js_sort: "sorted (map date (js_sort date_cmp txs))"
  by (simp add: js_sort_date_cmp)

lemma js_sort_sorted_id: "sorted (map date txs) \<Longrightarrow> js_sort date_cmp txs = txs"
  by (simp add: js_sort_date_cmp sort_key_id_if_sorted)

lemma simulate_truncated:
  assumes i: "i < length (js_sort date_cmp txs)"
    and before: "date (js_sort date_cmp txs ! i) < jan1_str year"
  shows "simulate year startRoom txs = simulate year startRoom []"
    and "simulate year startRoom (take i (js_sort date_cmp txs)) = simulate year startRoom []"
proof -
  let ?srt = "js_sort date_cmp txs"
  have srt: "sorted (map date ?srt)" by (rule sorted_js_sort)
  have ne: "txs \<noteq> []" using i by auto
  have "map date ?srt ! 0 \<le> map date ?srt ! i"
    using srt i by (intro sorted_nth_mono) simp_all
  moreover have "0 < length ?srt" using i by auto
  ultimately have hd_le: "date (?srt ! 0) \<le> date (?srt ! i)" using i by (simp add: nth_map)
  with before have hd: "date (?srt ! 0) < jan1_str year" by simp
  show "simulate year startRoom txs = simulate year startRoom []"
    by (rule simulate_stuck[OF ne hd])
  show "simulate year startRoom (take i ?srt) = simulate year startRoom []"
  proof (cases "i = 0")
    case True
    then show ?thesis by simp
  next
    case False
    have "sorted (map date (take i ?srt))"
      using srt by (simp add: take_map[symmetric] sorted_wrt_take)
    then have id: "js_sort date_cmp (take i ?srt) = take i ?srt" by (rule js_sort_sorted_id)
    have ne': "take i ?srt \<noteq> []" using False i by auto
    have "date (js_sort date_cmp (take i ?srt) ! 0) < jan1_str year"
      unfolding id using hd False by simp
    from simulate_stuck[OF ne' this] show ?thesis .
  qed
qed

lemma calculatePenalty_simulate_cong:
  "simulate year startRoom txs = simulate year startRoom txs' \<Longrightarrow>
   calculatePenalty year startRoom txs = calculatePenalty year startRoom txs'"
  by (simp add: calculatePenalty_def)

lemma simulate_empty_txIndex: "txIndex (simulate year startRoom []) = 0"
  using run_applied(3)[of year startRoom "[]"] by simp

subsection \<open>C10: transactions outside the year\<close>

text \<open>
  Claim C10. The transactions a run applies are dated, as strings, from January 1 to
  December 31 of the simulated year: a transaction of the ledger dated before
  \<open>jan1_str year\<close> or after \<open>dec31_str year\<close> is not among them. The amounts of the final
  state are those of applying the applied transactions to the initial state, so such a
  transaction changes neither the room, nor the excess, nor the two totals. And when the
  sorted ledger has at index \<open>i\<close> a transaction dated before January 1, nothing is applied
  at all (the apply pointer stays at 0), and the result is the result for the sorted ledger
  cut just before index \<open>i\<close>.
\<close>

theorem out_of_year_ignored:
  "(\<forall>t \<in> set txs. date t < jan1_str year \<or> dec31_str year < date t \<longrightarrow>
      t \<notin> set (applied year startRoom txs)) \<and>
   money (simulate year startRoom txs) =
     money (fold apply_tx (applied year startRoom txs) (init_state startRoom)) \<and>
   (\<forall>i < length (js_sort date_cmp txs).
      date (js_sort date_cmp txs ! i) < jan1_str year \<longrightarrow>
        txIndex (simulate year startRoom txs) = 0 \<and>
        applied year startRoom txs = [] \<and>
        calculatePenalty year startRoom txs =
          calculatePenalty year startRoom (take i (js_sort date_cmp txs)))"
proof (intro conjI ballI impI allI)
  fix t assume "t \<in> set txs" and out: "date t < jan1_str year \<or> dec31_str year < date t"
  show "t \<notin> set (applied year startRoom txs)"
  proof
    assume "t \<in> set (applied year startRoom txs)"
    with run_applied(2)[of year startRoom txs]
    have "date t \<in> format_date ` set (year_days year)" by blast
    from year_days_bounds[OF this] out show False by auto
  qed
next
  show "money (simulate year startRoom txs) =
     money (fold apply_tx (applied year startRoom txs) (init_state startRoom))"
    by (rule run_applied(1))
next
  fix i assume i: "i < length (js_sort date_cmp txs)"
    and before: "date (js_sort date_cmp txs ! i) < jan1_str year"
  note eq = simulate_truncated[OF i before, of startRoom]
  show idx: "txIndex (simulate year startRoom txs) = 0"
    unfolding eq(1) by (rule simulate_empty_txIndex)
  show "applied year startRoom txs = []"
    unfolding applied_def idx by simp
  show "calculatePenalty year startRoom txs =
          calculatePenalty year startRoom (take i (js_sort date_cmp txs))"
    by (rule calculatePenalty_simulate_cong) (simp only: eq)
qed

theorem out_of_year_ignored_witness:
  "date (js_sort date_cmp ledger_with_2023 ! 0) = ''2023-12-31'' \<and>
   jan1_str 2024 = ''2024-01-01'' \<and>
   date (js_sort date_cmp ledger_with_2023 ! 0) < jan1_str 2024 \<and>
   txIndex (simulate 2024 1000 ledger_with_2023) = 0 \<and>
   applied 2024 1000 ledger_with_2023 = [] \<and>
   calculatePenalty 2024 1000 ledger_with_2023 =
     calculatePenalty 2024 1000 (take 0 (js_sort date_cmp ledger_with_2023))"
proof -
  have d: "date (js_sort date_cmp ledger_with_2023 ! 0) = ''2023-12-31''"
    by (simp add: js_sort_def date_cmp_def ledger_with_2023_def)
  have j: "jan1_str 2024 = ''2024-01-01''"
    by (simp add: jan1_str_def format_date_def MakeFullYear_def show_int_def show_nat.simps
          padStart2_def digit_char_def Let_def)
  have lt: "date (js_sort date_cmp ledger_with_2023 ! 0) < jan1_str 2024"
    unfolding d j by simp
  have len: "0 < length (js_sort date_cmp ledger_with_2023)"
    by (simp add: ledger_with_2023_def)
  note third = conjunct2[OF conjunct2[OF out_of_year_ignored[of ledger_with_2023 2024 1000]]]
  from third[rule_format, OF len lt] d j lt
  show ?thesis by simp
qed

subsection \<open>The batch is the list of its lines' results\<close>

lemma admitted_of_append: "admitted_of (rs @ rs') = admitted_of rs @ admitted_of rs'"
  by (induction rs rule: admitted_of.induct) simp_all

lemma rejected_of_append: "rejected_of (rs @ rs') = rejected_of rs @ rejected_of rs'"
  by (induction rs rule: rejected_of.induct) simp_all

lemma csv_step_result:
  "csv_step pd nid lines i st =
     st\<lparr>transactions := transactions st @ admitted_of [process_line pd nid i (lines ! i)],
        addedCount := addedCount st + length (admitted_of [process_line pd nid i (lines ! i)]),
        errors := errors st @ rejected_of [process_line pd nid i (lines ! i)]\<rparr>"
  by (cases "process_line pd nid i (lines ! i)") (simp_all add: csv_step_def)

lemma csv_fold_result:
  "fold (csv_step pd nid lines) idxs st =
     st\<lparr>transactions := transactions st @
                           admitted_of (map (\<lambda>i. process_line pd nid i (lines ! i)) idxs),
        addedCount := addedCount st +
                        length (admitted_of (map (\<lambda>i. process_line pd nid i (lines ! i)) idxs)),
        errors := errors st @
                    rejected_of (map (\<lambda>i. process_line pd nid i (lines ! i)) idxs)\<rparr>"
proof (induction idxs arbitrary: st)
  case Nil
  then show ?case by simp
next
  case (Cons i idxs)
  let ?st1 = "csv_step pd nid lines i st"
  let ?rs = "map (\<lambda>i. process_line pd nid i (lines ! i)) idxs"
  have "fold (csv_step pd nid lines) (i # idxs) st = fold (csv_step pd nid lines) idxs ?st1"
    by simp
  also have "\<dots> = ?st1\<lparr>transactions := transactions ?st1 @ admitted_of ?rs,
                          addedCount := addedCount ?st1 + length (admitted_of ?rs),
                          errors := errors ?st1 @ rejected_of ?rs\<rparr>"
    by (rule Cons.IH)
  also have "\<dots> = st\<lparr>transactions := transactions st @
                           admitted_of (map (\<lambda>i. process_line pd nid i (lines ! i)) (i # idxs)),
        addedCount := addedCount st +
                        length (admitted_of (map (\<lambda>i. process_line pd nid i (lines ! i)) (i # idxs))),
        errors := errors st @
                    rejected_of (map (\<lambda>i. process_line pd nid i (lines ! i)) (i # idxs))\<rparr>"
    by (cases "process_line pd nid i (lines ! i)") (simp_all add: csv_step_def)
  finally show ?case .
qed

lemma processCsvData_state:
  "fst (processCsvData pd nid text_v txs0) =
     fold (csv_step pd nid (split_char (CHR 0x0A) text_v))
       [startIndex_of (split_char (CHR 0x0A) text_v) ..< length (split_char (CHR 0x0A) text_v)]
       \<lparr>transactions = txs0, addedCount = 0, errors = []\<rparr>"
  by (simp add: processCsvData_def Let_def)

lemma split_char_nonempty: "split_char c s \<noteq> []"
  by (induction s) (simp_all split: list.splits)

lemma js_includes_iff: "js_includes s sub \<longleftrightarrow> (\<exists>p q. s = p @ sub @ q)"
proof (induction s)
  case Nil
  then show ?case by auto
next
  case (Cons x xs)
  have "(\<exists>p q. x # xs = p @ sub @ q) \<longleftrightarrow>
        (\<exists>q. x # xs = sub @ q) \<or> (\<exists>p q. xs = p @ sub @ q)"
  proof
    assume "\<exists>p q. x # xs = p @ sub @ q"
    then obtain p q where pq: "x # xs = p @ sub @ q" by blast
    show "(\<exists>q. x # xs = sub @ q) \<or> (\<exists>p q. xs = p @ sub @ q)"
    proof (cases p)
      case Nil
      with pq show ?thesis by auto
    next
      case (Cons y p')
      with pq have "xs = p' @ sub @ q" by simp
      then show ?thesis by blast
    qed
  next
    assume "(\<exists>q. x # xs = sub @ q) \<or> (\<exists>p q. xs = p @ sub @ q)"
    then show "\<exists>p q. x # xs = p @ sub @ q"
    proof
      assume "\<exists>q. x # xs = sub @ q"
      then obtain q where "x # xs = [] @ sub @ q" by auto
      then show ?thesis by blast
    next
      assume "\<exists>p q. xs = p @ sub @ q"
      then obtain p q where "x # xs = (x # p) @ sub @ q" by auto
      then show ?thesis by blast
    qed
  qed
  moreover have "(take (length sub) (x # xs) = sub) \<longleftrightarrow> (\<exists>q. x # xs = sub @ q)"
    by (metis append_eq_conv_conj append_take_drop_id)
  ultimately show ?case using Cons.IH by simp
qed

subsection \<open>The amount of a line\<close>

lemma amount_check_cases:
  "(isNaN a \<or> le_zero a) = (a = NaN \<or> a = NegInf \<or> (\<exists>x. a = Fin x \<and> x \<le> 0))"
  by (cases a) (simp_all add: isNaN_def le_zero_def)

lemma process_line_amount_rejected:
  assumes "trim raw \<noteq> []" "3 \<le> length (cols_of (trim raw))"
  shows "(process_line pd nid i raw =
            Rejected (''Line '' @ show_nat (i + 1) @ '': Invalid amount: '' @ cols_of (trim raw) ! 2))
         = (isNaN (parse_amount (cols_of (trim raw) ! 2)) \<or>
            le_zero (parse_amount (cols_of (trim raw) ! 2)))"
  using assms by (auto simp: process_line_def Let_def split: option.splits)

lemma process_line_admitted:
  assumes "process_line pd nid i raw = Admitted tx"
  shows "amount tx = parse_amount (cols_of (trim raw) ! 2) \<and>
         \<not> isNaN (amount tx) \<and> \<not> le_zero (amount tx)"
  using assms by (auto simp: process_line_def Let_def split: option.splits if_splits)

lemma admitted_amount_cases:
  "\<not> isNaN a \<Longrightarrow> \<not> le_zero a \<Longrightarrow> a = PosInf \<or> (\<exists>x. a = Fin x \<and> 0 < x)"
  by (cases a) (simp_all add: isNaN_def le_zero_def)

subsection \<open>Evaluating the example lines\<close>

lemmas str_eval =
  trim_def is_space_def quotes_in_def strip_quotes_def toLowerCase_def lower_char_def
  Let_def char_of_eq_iff

lemma line_infinity_cols:
  "trim line_infinity = line_infinity"
  "cols_of line_infinity = [''2024-01-15'', ''Contribution'', ''Infinity'', ''RBC'']"
  by (simp_all add: line_infinity_def cols_of_def str_eval)

lemma line_abc_cols:
  "trim line_abc = line_abc"
  "cols_of line_abc = [''2024-06-20'', ''Withdrawal'', ''abc'', ''Tangerine'']"
  by (simp_all add: line_abc_def cols_of_def str_eval)

lemma line_mandate_cols:
  "trim line_mandate = line_mandate"
  "cols_of line_mandate = [''2024-01-15'', ''Contribution'', ''5000'', ''Mandate Bank'']"
  by (simp_all add: line_mandate_def cols_of_def str_eval)

lemma example_lines_nonempty:
  "line_infinity \<noteq> []" "line_abc \<noteq> []" "line_mandate \<noteq> []"
  by (simp_all add: line_infinity_def line_abc_def line_mandate_def)

lemma parse_amount_examples:
  "parse_amount ''Infinity'' = PosInf"
  "parse_amount ''abc'' = NaN"
  "parse_amount ''5000'' = Fin 5000"
  by (simp_all add: parse_amount_def parseFloat_def take_sign_def is_space_def is_digit_def
        digits_val_def exponent_of_def to_double_def)

lemma type_examples:
  "js_includes (toLowerCase ''Contribution'') ''withdraw'' = False"
  "js_includes (toLowerCase ''Withdrawal'') ''withdraw'' = True"
  by (simp_all add: str_eval)

lemma iso_examples: "isoRegex_test ''2024-01-15''" "isoRegex_test ''2024-06-20''"
  by (simp_all add: isoRegex_test_def is_digit_def)

lemma line_infinity_result:
  "process_line (\<lambda>_. None) (\<lambda>_. 0) 0 line_infinity =
     Admitted \<lparr>tx_id = 0, date = ''2024-01-15'', tx_type = ''CONTRIBUTION'', amount = PosInf,
               institution = ''RBC''\<rparr>"
  unfolding process_line_def line_infinity_cols Let_def
  by (simp add: parse_amount_examples type_examples iso_examples isNaN_def le_zero_def
        example_lines_nonempty)

lemma line_mandate_result:
  "process_line (\<lambda>_. None) (\<lambda>_. 0) 0 line_mandate =
     Admitted \<lparr>tx_id = 0, date = ''2024-01-15'', tx_type = ''CONTRIBUTION'', amount = Fin 5000,
               institution = ''Mandate Bank''\<rparr>"
  unfolding process_line_def line_mandate_cols Let_def
  by (simp add: parse_amount_examples type_examples iso_examples isNaN_def le_zero_def
        example_lines_nonempty)

lemma one_line_text:
  "split_char (CHR 0x0A) line_infinity = [line_infinity]"
  "split_char (CHR 0x0A) line_mandate = [line_mandate]"
  by (simp_all add: line_infinity_def line_mandate_def)

lemma startIndex_examples:
  "startIndex_of [line_infinity] = 0"
  "startIndex_of [line_mandate] = 1"
  by (simp_all add: startIndex_of_def line_infinity_def line_mandate_def str_eval)

subsection \<open>C9: the check of the amount\<close>

text \<open>
  Claim C9: a record is rejected when its amount is not a finite number or is not
  strictly positive, so that every admitted transaction has a finite amount above 0. The
  check of line 124 is \<^verbatim>\<open>isNaN(amount) || amount <= 0\<close>, and it misses the amounts that
  parse to +Infinity. For the one-line file \<open>line_infinity\<close> the amount column parses to
  +Infinity, the line is admitted, and the ledger receives an entry of infinite amount,
  with no error message.
\<close>

theorem infinite_amount_admitted:
  "parse_amount (cols_of (trim line_infinity) ! 2) = PosInf \<and>
   process_line (\<lambda>_. None) (\<lambda>_. 0) 0 line_infinity =
     Admitted \<lparr>tx_id = 0, date = ''2024-01-15'', tx_type = ''CONTRIBUTION'', amount = PosInf,
               institution = ''RBC''\<rparr> \<and>
   fst (processCsvData (\<lambda>_. None) (\<lambda>_. 0) line_infinity []) =
     \<lparr>transactions = [\<lparr>tx_id = 0, date = ''2024-01-15'', tx_type = ''CONTRIBUTION'',
                        amount = PosInf, institution = ''RBC''\<rparr>],
      addedCount = 1, errors = []\<rparr>"
proof -
  have "fst (processCsvData (\<lambda>_. None) (\<lambda>_. 0) line_infinity []) =
     \<lparr>transactions = [\<lparr>tx_id = 0, date = ''2024-01-15'', tx_type = ''CONTRIBUTION'',
                        amount = PosInf, institution = ''RBC''\<rparr>],
      addedCount = 1, errors = []\<rparr>"
    unfolding processCsvData_state one_line_text startIndex_examples
    by (simp add: csv_step_def line_infinity_result)
  then show ?thesis
    by (simp add: line_infinity_cols parse_amount_examples line_infinity_result)
qed

text \<open>
  What the check of the amount does decide. For a line that is not blank and has at least
  three columns, with \<open>a\<close> the number that \<open>parseFloat\<close> returns for the amount column
  without its commas: the line is rejected with the message
  \<^verbatim>\<open>Line i+1: Invalid amount: ...\<close> if and only if \<open>a\<close> is NaN or \<open>a \<le> 0\<close>, that is, \<open>a\<close> is
  NaN, -Infinity or a finite number that is not positive. An admitted entry has the
  amount +Infinity or a finite amount above 0. No line stops the batch: the ledger
  receives the entries of all the admitted lines from the start index on, in order, and
  \<open>errors\<close> all the messages.
\<close>

theorem amount_check:
  "(trim raw \<noteq> [] \<and> 3 \<le> length (cols_of (trim raw)) \<longrightarrow>
      (process_line pd nid i raw =
         Rejected (''Line '' @ show_nat (i + 1) @ '': Invalid amount: '' @ cols_of (trim raw) ! 2))
      = (isNaN (parse_amount (cols_of (trim raw) ! 2)) \<or>
         le_zero (parse_amount (cols_of (trim raw) ! 2)))) \<and>
   (isNaN a \<or> le_zero a) = (a = NaN \<or> a = NegInf \<or> (\<exists>x. a = Fin x \<and> x \<le> 0)) \<and>
   (process_line pd nid i raw = Admitted tx \<longrightarrow>
      amount tx = parse_amount (cols_of (trim raw) ! 2) \<and>
      (amount tx = PosInf \<or> (\<exists>x. amount tx = Fin x \<and> 0 < x))) \<and>
   (let lines = split_char (CHR 0x0A) text_v;
        rs = map (\<lambda>i. process_line pd nid i (lines ! i)) [startIndex_of lines ..< length lines];
        st = fst (processCsvData pd nid text_v txs0)
    in transactions st = txs0 @ admitted_of rs \<and>
       errors st = rejected_of rs \<and>
       addedCount st = length (admitted_of rs))"
proof (intro conjI impI)
  assume "trim raw \<noteq> [] \<and> 3 \<le> length (cols_of (trim raw))"
  then show "(process_line pd nid i raw =
         Rejected (''Line '' @ show_nat (i + 1) @ '': Invalid amount: '' @ cols_of (trim raw) ! 2))
      = (isNaN (parse_amount (cols_of (trim raw) ! 2)) \<or>
         le_zero (parse_amount (cols_of (trim raw) ! 2)))"
    using process_line_amount_rejected[of raw pd nid i] by blast
next
  show "(isNaN a \<or> le_zero a) = (a = NaN \<or> a = NegInf \<or> (\<exists>x. a = Fin x \<and> x \<le> 0))"
    by (rule amount_check_cases)
next
  assume adm: "process_line pd nid i raw = Admitted tx"
  from process_line_admitted[OF adm]
  show "amount tx = parse_amount (cols_of (trim raw) ! 2)" by blast
  from process_line_admitted[OF adm] admitted_amount_cases[of "amount tx"]
  show "amount tx = PosInf \<or> (\<exists>x. amount tx = Fin x \<and> 0 < x)" by blast
next
  show "let lines = split_char (CHR 0x0A) text_v;
        rs = map (\<lambda>i. process_line pd nid i (lines ! i)) [startIndex_of lines ..< length lines];
        st = fst (processCsvData pd nid text_v txs0)
    in transactions st = txs0 @ admitted_of rs \<and>
       errors st = rejected_of rs \<and>
       addedCount st = length (admitted_of rs)"
    unfolding Let_def processCsvData_state csv_fold_result by simp
qed

theorem amount_check_witness:
  "trim line_abc \<noteq> [] \<and> 3 \<le> length (cols_of (trim line_abc)) \<and>
   isNaN (parse_amount (cols_of (trim line_abc) ! 2)) \<and>
   process_line (\<lambda>_. None) (\<lambda>_. 0) 2 line_abc = Rejected ''Line 3: Invalid amount: abc'' \<and>
   process_line (\<lambda>_. None) (\<lambda>_. 0) 0 line_mandate =
     Admitted \<lparr>tx_id = 0, date = ''2024-01-15'', tx_type = ''CONTRIBUTION'', amount = Fin 5000,
               institution = ''Mandate Bank''\<rparr> \<and>
   amount \<lparr>tx_id = 0, date = ''2024-01-15'', tx_type = ''CONTRIBUTION'', amount = Fin 5000,
            institution = ''Mandate Bank''\<rparr> = parse_amount (cols_of (trim line_mandate) ! 2)"
proof -
  have ne: "trim line_abc \<noteq> []" by (simp add: line_abc_cols(1) example_lines_nonempty)
  have len: "3 \<le> length (cols_of (trim line_abc))" by (simp add: line_abc_cols)
  have nan: "isNaN (parse_amount (cols_of (trim line_abc) ! 2))"
    by (simp add: line_abc_cols parse_amount_examples isNaN_def)
  have msg: "''Line '' @ show_nat (2 + 1) @ '': Invalid amount: '' @ cols_of (trim line_abc) ! 2 =
      ''Line 3: Invalid amount: abc''"
    by (simp add: line_abc_cols show_nat.simps digit_char_def)
  note g1 = amount_check[of line_abc "\<lambda>_. None" "\<lambda>_. 0" 2 NaN undefined "[]" "[]"]
  note g2 = amount_check[of line_mandate "\<lambda>_. None" "\<lambda>_. 0" 0 NaN
     "\<lparr>tx_id = 0, date = ''2024-01-15'', tx_type = ''CONTRIBUTION'', amount = Fin 5000,
               institution = ''Mandate Bank''\<rparr>" "[]" "[]"]
  from g1 ne len nan msg
  have "process_line (\<lambda>_. None) (\<lambda>_. 0) 2 line_abc = Rejected ''Line 3: Invalid amount: abc''"
    by simp
  moreover from g2 line_mandate_result
  have "amount \<lparr>tx_id = 0, date = ''2024-01-15'', tx_type = ''CONTRIBUTION'', amount = Fin 5000,
            institution = ''Mandate Bank''\<rparr> = parse_amount (cols_of (trim line_mandate) ! 2)"
    by blast
  ultimately show ?thesis using ne len nan line_mandate_result by blast
qed

subsection \<open>C8: the header line\<close>

lemma date_column_examples:
  "js_includes (toLowerCase ''2024-01-15'') ''date'' = False"
  by (simp add: str_eval)

text \<open>
  Claim C8, as stated, fails in one direction: the test reads the whole first line, not
  its date column. The one-line file \<open>line_mandate\<close> has the date column
  \<^verbatim>\<open>2024-01-15\<close>, which does not contain \<^verbatim>\<open>date\<close>; the line is a valid record (as a
  data line it is admitted); yet the loop starts at index 1, and nothing is imported.
\<close>

theorem header_test_reads_whole_line:
  "cols_of (trim line_mandate) ! 0 = ''2024-01-15'' \<and>
   \<not> js_includes (toLowerCase (cols_of (trim line_mandate) ! 0)) ''date'' \<and>
   process_line (\<lambda>_. None) (\<lambda>_. 0) 0 line_mandate =
     Admitted \<lparr>tx_id = 0, date = ''2024-01-15'', tx_type = ''CONTRIBUTION'', amount = Fin 5000,
               institution = ''Mandate Bank''\<rparr> \<and>
   startIndex_of (split_char (CHR 0x0A) line_mandate) = 1 \<and>
   processCsvData (\<lambda>_. None) (\<lambda>_. 0) line_mandate [] =
     (\<lparr>transactions = [], addedCount = 0, errors = []\<rparr>,
      Some ''No valid transactions found in CSV. Check format.'')"
proof -
  have "processCsvData (\<lambda>_. None) (\<lambda>_. 0) line_mandate [] =
     (\<lparr>transactions = [], addedCount = 0, errors = []\<rparr>,
      Some ''No valid transactions found in CSV. Check format.'')"
    unfolding processCsvData_def one_line_text startIndex_examples Let_def by simp
  then show ?thesis
    by (simp add: line_mandate_cols date_column_examples line_mandate_result one_line_text
          startIndex_examples)
qed

text \<open>
  Claim C8, amended. The text always has a first line. The loop starts at index 1 when
  that whole line, in lower case, contains \<^verbatim>\<open>date\<close> somewhere (in any column), and at
  index 0 otherwise. In the first case the first line yields neither an entry nor a
  message: the import is the pass of the loop over the lines from index 1 on. In the
  second the first line is processed as a data line, before the others.
\<close>

theorem header_skip:
  "(let lines = split_char (CHR 0x0A) text_v;
        st0 = \<lparr>transactions = txs0, addedCount = 0, errors = []\<rparr>
    in lines \<noteq> [] \<and>
       startIndex_of lines = (if js_includes (toLowerCase (hd lines)) ''date'' then 1 else 0) \<and>
       js_includes (toLowerCase (hd lines)) ''date'' =
         (\<exists>p q. toLowerCase (hd lines) = p @ ''date'' @ q) \<and>
       fst (processCsvData pd nid text_v txs0) =
         (if js_includes (toLowerCase (hd lines)) ''date''
          then fold (csv_step pd nid lines) [1 ..< length lines] st0
          else fold (csv_step pd nid lines) [1 ..< length lines] (csv_step pd nid lines 0 st0)))"
proof -
  let ?lines = "split_char (CHR 0x0A) text_v"
  obtain l0 rest where l: "?lines = l0 # rest"
    using split_char_nonempty[of "CHR 0x0A" text_v] by (cases ?lines) auto
  let ?st0 = "\<lparr>transactions = txs0, addedCount = 0, errors = []\<rparr>"
  let ?inc = "js_includes (toLowerCase (hd ?lines)) ''date''"
  have ne: "?lines \<noteq> []" by (rule split_char_nonempty)
  have si: "startIndex_of ?lines = (if ?inc then 1 else 0)"
    unfolding l startIndex_of_def by simp
  have upt: "[0 ..< length ?lines] = 0 # [1 ..< length ?lines]"
    unfolding l by (simp add: upt_rec)
  have f0: "fold (csv_step pd nid ?lines) [0 ..< length ?lines] ?st0 =
            fold (csv_step pd nid ?lines) [1 ..< length ?lines] (csv_step pd nid ?lines 0 ?st0)"
    by (subst upt) simp
  have run: "fst (processCsvData pd nid text_v txs0) =
         (if ?inc
          then fold (csv_step pd nid ?lines) [1 ..< length ?lines] ?st0
          else fold (csv_step pd nid ?lines) [1 ..< length ?lines] (csv_step pd nid ?lines 0 ?st0))"
  proof (cases ?inc)
    case True
    then show ?thesis unfolding processCsvData_state si by simp
  next
    case False
    then show ?thesis unfolding processCsvData_state si using f0 by simp
  qed
  have sem: "?inc = (\<exists>p q. toLowerCase (hd ?lines) = p @ ''date'' @ q)"
    by (rule js_includes_iff)
  show ?thesis
    unfolding Let_def by (intro conjI ne si sem run)
qed

subsection \<open>C7: a call leaves the ledger as it was\<close>

lemma map_insert_by:
  "map f (insert_by (\<lambda>a b. cmp (f a) (f b)) x ys) = insert_by cmp (f x) (map f ys)"
  by (induction ys) simp_all

lemma map_js_sort:
  "map f (js_sort (\<lambda>a b. cmp (f a) (f b)) xs) = js_sort cmp (map f xs)"
  by (induction xs) (simp_all add: js_sort_def map_insert_by)

lemma calculatePenalty_on_result:
  assumes "txs < length (arrays h)"
  shows "fst (calculatePenalty_on year startRoom txs h) =
           calculatePenalty year startRoom (contents h txs)"
proof -
  have "contents
          (sort_in_place (\<lambda>a b. date_cmp (entries h ! a) (entries h ! b)) (length (arrays h))
             (h\<lparr>arrays := arrays h @ [arrays h ! txs]\<rparr>))
          (length (arrays h)) =
        js_sort date_cmp (contents h txs)"
    by (simp add: contents_def sort_in_place_def map_js_sort[of "\<lambda>r. entries h ! r" date_cmp])
  then show ?thesis
    by (simp add: calculatePenalty_on_def spread_copy_def calculatePenalty_def simulate_def Let_def)
qed

lemma calculatePenalty_on_store:
  assumes "a < length (arrays h)"
  shows "arrays (snd (calculatePenalty_on year startRoom txs h)) ! a = arrays h ! a"
    and "entries (snd (calculatePenalty_on year startRoom txs h)) = entries h"
    and "clock (snd (calculatePenalty_on year startRoom txs h)) = clock h"
    and "length (arrays (snd (calculatePenalty_on year startRoom txs h))) = length (arrays h) + 1"
  using assms
  by (simp_all add: calculatePenalty_on_def spread_copy_def sort_in_place_def nth_append Let_def)

text \<open>
  Claim C7. For a ledger array \<open>txs\<close> of the store: the call leaves the array \<open>txs\<close> (its
  length, its references and their order), every other array that existed, and every
  ledger entry as they were. The result is \<open>calculatePenalty\<close> of the year, the starting
  room and the contents of \<open>txs\<close>: it is the same from any other store whose array
  \<open>txs'\<close> has the same contents, whatever else the two stores hold and whatever their
  clocks read; and a second call, made in the store the first one left, returns the same
  result as the first.
\<close>

theorem pure_and_no_mutation:
  assumes "txs < length (arrays h)"
  shows "arrays (snd (calculatePenalty_on year startRoom txs h)) ! txs = arrays h ! txs \<and>
         take (length (arrays h)) (arrays (snd (calculatePenalty_on year startRoom txs h))) = arrays h \<and>
         entries (snd (calculatePenalty_on year startRoom txs h)) = entries h \<and>
         contents (snd (calculatePenalty_on year startRoom txs h)) txs = contents h txs \<and>
         fst (calculatePenalty_on year startRoom txs h) =
           calculatePenalty year startRoom (contents h txs) \<and>
         (txs' < length (arrays h') \<and> contents h' txs' = contents h txs \<longrightarrow>
            fst (calculatePenalty_on year startRoom txs' h') =
            fst (calculatePenalty_on year startRoom txs h)) \<and>
         fst (calculatePenalty_on year startRoom txs (snd (calculatePenalty_on year startRoom txs h))) =
           fst (calculatePenalty_on year startRoom txs h)"
proof -
  let ?h' = "snd (calculatePenalty_on year startRoom txs h)"
  note st = calculatePenalty_on_store[of _ h year startRoom txs]
  have a: "arrays ?h' ! txs = arrays h ! txs" by (rule st(1)[OF assms])
  have t: "take (length (arrays h)) (arrays ?h') = arrays h"
    by (simp add: calculatePenalty_on_def spread_copy_def sort_in_place_def Let_def)
  have e: "entries ?h' = entries h" by (rule st(2)[OF assms])
  have c: "contents ?h' txs = contents h txs" by (simp add: contents_def a e)
  have r: "fst (calculatePenalty_on year startRoom txs h) =
           calculatePenalty year startRoom (contents h txs)"
    by (rule calculatePenalty_on_result[OF assms])
  have o: "txs' < length (arrays h') \<and> contents h' txs' = contents h txs \<longrightarrow>
            fst (calculatePenalty_on year startRoom txs' h') =
            fst (calculatePenalty_on year startRoom txs h)"
    using calculatePenalty_on_result[of txs' h' year startRoom] r by auto
  have len: "txs < length (arrays ?h')" using st(4)[OF assms] assms by simp
  have again: "fst (calculatePenalty_on year startRoom txs ?h') =
           fst (calculatePenalty_on year startRoom txs h)"
    unfolding calculatePenalty_on_result[OF len] r c ..
  show ?thesis by (intro conjI a t e c r o again)
qed

theorem pure_and_no_mutation_witness:
  "0 < length (arrays store_A) \<and>
   arrays (snd (calculatePenalty_on 2024 10000 0 store_A)) ! 0 = [0, 1, 2] \<and>
   entries (snd (calculatePenalty_on 2024 10000 0 store_A)) = entries store_A \<and>
   fst (calculatePenalty_on 2024 10000 0 (snd (calculatePenalty_on 2024 10000 0 store_A))) =
     fst (calculatePenalty_on 2024 10000 0 store_A) \<and>
   fst (calculatePenalty_on 2024 10000 0 (store_A\<lparr>clock := 86400000\<rparr>)) =
     fst (calculatePenalty_on 2024 10000 0 store_A)"
proof -
  have len: "0 < length (arrays store_A)" by (simp add: store_A_def)
  have len': "0 < length (arrays (store_A\<lparr>clock := 86400000\<rparr>)) \<and>
              contents (store_A\<lparr>clock := 86400000\<rparr>) 0 = contents store_A 0"
    by (simp add: store_A_def contents_def)
  from pure_and_no_mutation[OF len, of 2024 10000 0 "store_A\<lparr>clock := 86400000\<rparr>"] len len'
  show ?thesis by (simp add: store_A_def)
qed

subsection \<open>A run of Scenario A\<close>

lemma day_body_money:
  "money (day_body sortedTxs d s) = money (apply_day_txs (format_date d) sortedTxs s)"
  "txIndex (day_body sortedTxs d s) = txIndex (apply_day_txs (format_date d) sortedTxs s)"
  by (simp_all add: day_body_def Let_def money_def)

lemma apply_day_txs_done:
  "length sortedTxs \<le> txIndex s \<Longrightarrow> apply_day_txs dateStr sortedTxs s = s"
  by (subst apply_day_txs.simps) simp

lemma fold_day_body_done:
  "length sortedTxs \<le> txIndex s \<Longrightarrow>
   money (fold (day_body sortedTxs) ds s) = money s \<and>
   txIndex (fold (day_body sortedTxs) ds s) = txIndex s"
proof (induction ds arbitrary: s)
  case Nil
  then show ?case by simp
next
  case (Cons d ds)
  have b: "money (day_body sortedTxs d s) = money s" "txIndex (day_body sortedTxs d s) = txIndex s"
    by (simp_all add: day_body_money apply_day_txs_done[OF Cons.prems])
  from Cons.IH[of "day_body sortedTxs d s"] Cons.prems b show ?case by simp
qed

lemma apply_day_txs_single:
  assumes "txIndex s < length sortedTxs" "date (sortedTxs ! txIndex s) = dateStr"
    and "Suc (txIndex s) < length sortedTxs \<longrightarrow> date (sortedTxs ! Suc (txIndex s)) \<noteq> dateStr"
  shows "apply_day_txs dateStr sortedTxs s =
           (apply_tx (sortedTxs ! txIndex s) s)\<lparr>txIndex := Suc (txIndex s)\<rparr>"
proof -
  let ?s' = "(apply_tx (sortedTxs ! txIndex s) s)\<lparr>txIndex := txIndex s + 1\<rparr>"
  have "apply_day_txs dateStr sortedTxs s = apply_day_txs dateStr sortedTxs ?s'"
    using assms(1,2) by (subst apply_day_txs.simps) simp
  also have "\<dots> = ?s'"
    using assms(3) by (subst apply_day_txs.simps) simp
  finally show ?thesis by simp
qed

lemma day_body_single:
  assumes "txIndex s = k" "k < length sortedTxs" "date (sortedTxs ! k) = format_date d"
    and "Suc k < length sortedTxs \<longrightarrow> date (sortedTxs ! Suc k) \<noteq> format_date d"
  shows "money (day_body sortedTxs d s) = money (apply_tx (sortedTxs ! k) s)"
    and "txIndex (day_body sortedTxs d s) = Suc k"
proof -
  have "apply_day_txs (format_date d) sortedTxs s =
          (apply_tx (sortedTxs ! txIndex s) s)\<lparr>txIndex := Suc (txIndex s)\<rparr>"
    using assms by (intro apply_day_txs_single) simp_all
  then show "money (day_body sortedTxs d s) = money (apply_tx (sortedTxs ! k) s)"
    and "txIndex (day_body sortedTxs d s) = Suc k"
    using assms(1) by (simp_all add: day_body_money)
qed

lemma money_apply_tx:
  "money s = (e, u, w, c) \<Longrightarrow>
   money (apply_tx tx s) =
     money (apply_tx tx \<lparr>txIndex = 0, excess = e, unusedRoom = u, totalWithdrawals = w,
                          totalContributions = c, monthlyMaxExcess = [], vizDataDates = [],
                          vizDataExcess = []\<rparr>)"
  by (rule money_apply_tx_cong) (simp add: money_def)

lemma year_days_2024_start:
  "\<exists>rest. year_days 2024 =
     \<lparr>utcFullYear = 2024, utcMonth = 0, utcDate = 1\<rparr> #
     \<lparr>utcFullYear = 2024, utcMonth = 0, utcDate = 2\<rparr> #
     \<lparr>utcFullYear = 2024, utcMonth = 0, utcDate = 3\<rparr> # rest"
proof -
  let ?e = "\<lparr>utcFullYear = 2024, utcMonth = 11, utcDate = 31\<rparr>"
  have yd: "year_days 2024 = days_from ?e \<lparr>utcFullYear = 2024, utcMonth = 0, utcDate = 1\<rparr>"
    by (simp add: year_days_def Date_UTC_def MakeFullYear_def date_le_def Let_def)
  have n1: "next_day \<lparr>utcFullYear = 2024, utcMonth = 0, utcDate = 1\<rparr> =
              \<lparr>utcFullYear = 2024, utcMonth = 0, utcDate = 2\<rparr>"
    and n2: "next_day \<lparr>utcFullYear = 2024, utcMonth = 0, utcDate = 2\<rparr> =
              \<lparr>utcFullYear = 2024, utcMonth = 0, utcDate = 3\<rparr>"
    by (simp_all add: next_day_def days_in_month_def)
  have le: "date_le \<lparr>utcFullYear = 2024, utcMonth = 0, utcDate = 1\<rparr> ?e"
           "date_le \<lparr>utcFullYear = 2024, utcMonth = 0, utcDate = 2\<rparr> ?e"
           "date_le \<lparr>utcFullYear = 2024, utcMonth = 0, utcDate = 3\<rparr> ?e"
    by (simp_all add: date_le_def)
  have step: "\<And>d. date_le d ?e \<Longrightarrow> days_from ?e d = d # days_from ?e (next_day d)"
    by (subst days_from.simps) simp
  have "year_days 2024 =
     \<lparr>utcFullYear = 2024, utcMonth = 0, utcDate = 1\<rparr> #
     \<lparr>utcFullYear = 2024, utcMonth = 0, utcDate = 2\<rparr> #
     \<lparr>utcFullYear = 2024, utcMonth = 0, utcDate = 3\<rparr> #
     days_from ?e (next_day \<lparr>utcFullYear = 2024, utcMonth = 0, utcDate = 3\<rparr>)"
    unfolding yd
    by (subst step[OF le(1)], subst n1, subst step[OF le(2)], subst n2, subst step[OF le(3)])
       (rule refl)
  then show ?thesis by blast
qed

lemma format_date_2024_jan:
  "format_date \<lparr>utcFullYear = 2024, utcMonth = 0, utcDate = 1\<rparr> = ''2024-01-01''"
  "format_date \<lparr>utcFullYear = 2024, utcMonth = 0, utcDate = 2\<rparr> = ''2024-01-02''"
  "format_date \<lparr>utcFullYear = 2024, utcMonth = 0, utcDate = 3\<rparr> = ''2024-01-03''"
  by (simp_all add: format_date_def show_int_def show_nat.simps padStart2_def digit_char_def
        Let_def)

lemma scenario_A_sorted:
  "js_sort date_cmp scenario_A = rev scenario_A"
  by (simp add: js_sort_def date_cmp_def scenario_A_def)

text \<open>
  Scenario A, run through the whole of 2024: the ledger is sorted into date order, its
  three transactions are applied on the first three days, and the year ends with excess
  5,000 and no room; 17,000 contributed, 2,000 withdrawn, and 2,000 of room next year.
\<close>

lemma scenario_A_run:
  "applied 2024 10000 scenario_A = rev scenario_A"
  "money (simulate 2024 10000 scenario_A) = (5000, 0, 2000, 17000)"
  "currentExcess (calculatePenalty 2024 10000 scenario_A) = 5000"
  "remainingRoom (calculatePenalty 2024 10000 scenario_A) = 0"
  "nextYearLimit (calculatePenalty 2024 10000 scenario_A) = 2000"
proof -
  define srt where "srt = rev scenario_A"
  define d1 where "d1 = \<lparr>utcFullYear = 2024, utcMonth = 0, utcDate = 1\<rparr>"
  define d2 where "d2 = \<lparr>utcFullYear = 2024, utcMonth = 0, utcDate = 2\<rparr>"
  define d3 where "d3 = \<lparr>utcFullYear = 2024, utcMonth = 0, utcDate = 3\<rparr>"
  define s0 where "s0 = init_state 10000"
  define s1 where "s1 = day_body srt d1 s0"
  define s2 where "s2 = day_body srt d2 s1"
  define s3 where "s3 = day_body srt d3 s2"
  obtain rest where yd: "year_days 2024 = d1 # d2 # d3 # rest"
    unfolding d1_def d2_def d3_def using year_days_2024_start by blast
  have fd: "format_date d1 = ''2024-01-01''" "format_date d2 = ''2024-01-02''"
    "format_date d3 = ''2024-01-03''"
    unfolding d1_def d2_def d3_def by (rule format_date_2024_jan)+
  have len: "length srt = 3" by (simp add: srt_def scenario_A_def)
  have t0: "srt ! 0 = \<lparr>tx_id = 1, date = ''2024-01-01'', tx_type = ''CONTRIBUTION'',
                         amount = 15000, institution = ''RBC''\<rparr>"
    and t1: "srt ! Suc 0 = \<lparr>tx_id = 2, date = ''2024-01-02'', tx_type = ''WITHDRAWAL'',
                         amount = 2000, institution = ''RBC''\<rparr>"
    and t2: "srt ! Suc (Suc 0) = \<lparr>tx_id = 3, date = ''2024-01-03'', tx_type = ''CONTRIBUTION'',
                         amount = 2000, institution = ''RBC''\<rparr>"
    by (simp_all add: srt_def scenario_A_def)
  have dates: "date (srt ! 0) = ''2024-01-01''" "date (srt ! Suc 0) = ''2024-01-02''"
    "date (srt ! Suc (Suc 0)) = ''2024-01-03''"
    by (simp_all add: t0 t1 t2)
  have i0: "txIndex s0 = 0" by (simp add: s0_def)
  have m0: "money s0 = (0, 10000, 0, 0)" by (simp add: s0_def init_state_def money_def)
  have b1: "money s1 = money (apply_tx (srt ! 0) s0)" "txIndex s1 = Suc 0"
    unfolding s1_def
    by (rule day_body_single[OF i0], simp_all add: len fd dates)+
  have m1: "money s1 = (5000, 0, 0, 15000)"
    unfolding b1(1) money_apply_tx[OF m0] t0 by (simp add: apply_tx_def money_def)
  have b2: "money s2 = money (apply_tx (srt ! Suc 0) s1)" "txIndex s2 = Suc (Suc 0)"
    unfolding s2_def
    by (rule day_body_single[OF b1(2)], simp_all add: len fd dates)+
  have m2: "money s2 = (3000, 0, 2000, 15000)"
    unfolding b2(1) money_apply_tx[OF m1] t1 by (simp add: apply_tx_def money_def)
  have b3: "money s3 = money (apply_tx (srt ! Suc (Suc 0)) s2)" "txIndex s3 = Suc (Suc (Suc 0))"
    unfolding s3_def
    by (rule day_body_single[OF b2(2)], simp_all add: len fd dates)+
  have m3: "money s3 = (5000, 0, 2000, 17000)"
    unfolding b3(1) money_apply_tx[OF m2] t2 by (simp add: apply_tx_def money_def)
  have sim: "simulate 2024 10000 scenario_A = fold (day_body srt) rest s3"
    unfolding simulate_fold scenario_A_sorted yd s3_def s2_def s1_def s0_def srt_def by simp
  have past: "length srt \<le> txIndex s3" using b3(2) len by simp
  note fin = fold_day_body_done[OF past, of rest]
  show money: "money (simulate 2024 10000 scenario_A) = (5000, 0, 2000, 17000)"
    unfolding sim using fin m3 by simp
  have idx: "txIndex (simulate 2024 10000 scenario_A) = 3"
    unfolding sim using fin b3(2) by simp
  show "applied 2024 10000 scenario_A = rev scenario_A"
    unfolding applied_def idx scenario_A_sorted using len by (simp add: srt_def)
  show "currentExcess (calculatePenalty 2024 10000 scenario_A) = 5000"
    using money by (simp add: calculatePenalty_fields money_def)
  show "remainingRoom (calculatePenalty 2024 10000 scenario_A) = 0"
    using money by (simp add: calculatePenalty_fields money_def)
  show "nextYearLimit (calculatePenalty 2024 10000 scenario_A) = 2000"
    using money by (simp add: calculatePenalty_fields money_def nextLimit_of_def ANNUAL_LIMITS_def)
qed

end
